theory Spec2Isabelle
  imports Main
begin

section \<open>Data model\<close>

text \<open>
  The run service executes one streamed provider call per run, records every message of
  the stream in the table \<open>ccr_run_messages\<close>, and keeps one row per run in the table
  \<open>ccr_runs\<close>. The types below follow \<open>src/types.ts\<close>, \<open>src/db/schema.ts\<close> and
  \<open>src/errors.ts\<close>. Strings are lists of 8-bit characters; a time stamp is the integer
  number of milliseconds that \<open>Date.now()\<close> returns.
\<close>

datatype RunMode = Fresh | Resume | Fork

datatype RunStatus = Running | Completed | Error | Cancelled

text \<open>
  An \<open>SDKMessage\<close> is discriminated by its \<open>type\<close> tag. The core reads three of its
  fields: \<open>type\<close>, the optional \<open>subtype\<close> and \<open>session_id\<close>; the rest of the message is
  carried along as \<open>content\<close>.
\<close>

record SDKMessage =
  msg_type :: string
  subtype :: "string option"
  session_id :: string
  content :: string

text \<open>
  The two texts that the core serialises with \<open>JSON.stringify\<close>: a whole message, and the
  object \<open>{ error: errorMessage }\<close>.
\<close>

datatype json_text = MessageJson SDKMessage | ErrorJson string

record Run =
  r_id :: string
  r_cwd :: string
  r_sessionId :: string
  r_parentSessionId :: "string option"
  r_mode :: RunMode
  r_status :: RunStatus
  r_prompt :: string
  r_resultType :: "string option"
  r_resultJson :: "json_text option"
  r_durationMs :: "int option"
  r_createdAt :: "int option"

record RunMessage =
  rm_runId :: string
  rm_index :: nat
  rm_messageType :: string
  rm_messageJson :: json_text
  rm_createdAt :: int

record ActiveRun =
  a_runId :: string
  a_sessionId :: string
  a_mode :: RunMode
  a_status :: RunStatus
  a_startedAt :: int
  a_aborted :: bool
  a_webhookUrl :: "string option"

record StartParams =
  sp_cwd :: string
  sp_prompt :: string
  sp_images :: "(string \<times> string) list"
  sp_options :: "(string \<times> string) list"
  sp_webhookUrl :: "string option"

record ResumeParams =
  rp_sessionId :: string
  rp_prompt :: string
  rp_images :: "(string \<times> string) list"
  rp_options :: "(string \<times> string) list"
  rp_webhookUrl :: "string option"

type_synonym ForkParams = ResumeParams

record RunResult =
  res_runId :: string
  res_sessionId :: string
  res_parentSessionId :: "string option"
  res_mode :: RunMode
  res_status :: RunStatus
  res_durationMs :: int
  res_result :: "SDKMessage option"
  res_error :: "string option"

text \<open>
  The statements that the core sends to the run table, each with the run id or session
  id it is about: the insert of the row of a run, the update of the session id in
  \<open>processStream\<close>, the update after the loop in the \<open>try\<close> block, the update in the
  \<open>catch\<close> block, the update of \<open>cancel\<close>, and the select of \<open>resume\<close> and \<open>fork\<close>.
\<close>

datatype db_call =
    InsertRun string
  | UpdateSessionId string
  | UpdateOutcome string
  | UpdateError string
  | UpdateCancelled string
  | SelectBySessionId string

text \<open>
  What a call of the core can throw: the error classes of \<open>src/errors.ts\<close> that the core
  throws itself, and the error of the database driver for a statement that failed.
\<close>

datatype thrown_error =
    ValidationError string string
  | SessionNotFoundError string
  | RunAlreadyCompletedError string
  | SQLiteError db_call

text \<open>The event envelope of \<open>webhook.ts\<close>.\<close>

datatype WebhookEventType = RunStarted | RunCompleted | RunFailed | RunErrorEvent

record WebhookEvent =
  we_event :: WebhookEventType
  we_runId :: string
  we_sessionId :: string
  we_timestamp :: int
  we_payload :: string

text \<open>
  The options object that \<open>execute\<close> hands to the provider's \<open>query\<close>, together with the
  content blocks of the single user message.
\<close>

datatype ContentBlock = TextBlock string | ImageBlock string string

record ExecuteParams =
  ep_cwd :: string
  ep_prompt :: string
  ep_images :: "(string \<times> string) list"
  ep_options :: "(string \<times> string) list"
  ep_sessionId :: "string option"

record ProviderCall =
  pc_content :: "ContentBlock list"
  pc_options :: "(string \<times> string) list"
  pc_cwd :: string
  pc_forkSession :: bool
  pc_resume :: "string option"

text \<open>
  Everything outside a single call that the core reads or writes: the two tables, the
  process-wide \<open>activeRuns\<close> map, the provider calls made, the notifications handed to
  \<open>dispatchWebhook\<close>, and the console. The \<open>activeRuns\<close> map holds references: \<open>start\<close>
  keeps its \<open>ActiveRun\<close> object in a local variable after \<open>cancel\<close> has deleted the map
  entry, so the objects live in \<open>objects\<close> (addressed by run id, one object per run) and
  the map is the list of its keys in insertion order. \<open>insertCalls\<close> lists the argument of
  every \<open>db.insert(runMessageTable)\<close> call in call order, whether it succeeded or threw.
\<close>

record World =
  runTable :: "Run list"
  runMessageTable :: "RunMessage list"
  insertCalls :: "RunMessage list list"
  activeRuns :: "string list"
  objects :: "string \<Rightarrow> ActiveRun option"
  providerCalls :: "ProviderCall list"
  dispatched :: "(string \<times> WebhookEvent) list"
  console :: "string list"

section \<open>The batched recorder (\<open>stream-recorder.ts\<close>)\<close>

text \<open>
  The closure state of \<open>createSink\<close>: the options, the counter \<open>index\<close>, the buffer \<open>batch\<close>
  and whether \<open>flushTimer\<close> holds a timer.
\<close>

record Sink =
  sink_runId :: string
  batchSize :: int
  flushIntervalMs :: int
  index :: nat
  batch :: "RunMessage list"
  flushTimer :: bool

datatype outcome = Returned | Threw

definition createSink :: "string \<Rightarrow> int \<Rightarrow> int \<Rightarrow> Sink" where
  "createSink runId bs ms =
     \<lparr>sink_runId = runId, batchSize = bs, flushIntervalMs = ms, index = 0, batch = [],
      flushTimer = False\<rparr>"

text \<open>The defaults of \<open>RecorderOptions\<close>.\<close>

definition createSinkDefault :: "string \<Rightarrow> Sink" where
  "createSinkDefault runId = createSink runId 50 1000"

text \<open>
  \<open>flush\<close>: nothing happens on an empty buffer; otherwise the buffer is taken and reset and
  the timer cancelled before the rows are inserted in a single call. Whether that call
  throws is decided by the persistence layer, here the predicate \<open>fails\<close> on the rows
  handed over; a call that throws inserts nothing.
\<close>

definition flush :: "(RunMessage list \<Rightarrow> bool) \<Rightarrow> Sink \<times> World \<Rightarrow> outcome \<times> Sink \<times> World" where
  "flush fails sw =
     (let s = fst sw; w = snd sw in
      if batch s = [] then (Returned, s, w)
      else
        let toInsert = batch s;
            s' = s\<lparr>batch := [], flushTimer := False\<rparr>;
            w' = w\<lparr>insertCalls := insertCalls w @ [toInsert]\<rparr>
        in if fails toInsert then (Threw, s', w')
           else (Returned, s', w'\<lparr>runMessageTable := runMessageTable w' @ toInsert\<rparr>))"

definition scheduleFlush :: "Sink \<Rightarrow> Sink" where
  "scheduleFlush s = (if flushTimer s then s else s\<lparr>flushTimer := True\<rparr>)"

text \<open>
  The timer callback: \<open>flush().catch(err => console.error(...))\<close>. It runs only while a
  timer is set.
\<close>

definition timerFires :: "(RunMessage list \<Rightarrow> bool) \<Rightarrow> Sink \<times> World \<Rightarrow> Sink \<times> World" where
  "timerFires fails sw =
     (if \<not> flushTimer (fst sw) then sw
      else case flush fails sw of
             (Returned, s', w') \<Rightarrow> (s', w')
           | (Threw, s', w') \<Rightarrow>
               (s', w'\<lparr>console := console w' @ [''[StreamRecorder] Flush error:'']\<rparr>))"

text \<open>
  The sink's \<open>write\<close>, \<open>close\<close> and \<open>abort\<close> methods. \<open>new_record\<close> is the row that \<open>write\<close>
  builds for a message: it carries the current value of \<open>index\<close>, which \<open>write\<close> then
  increments.
\<close>

definition new_record :: "Sink \<Rightarrow> SDKMessage \<Rightarrow> int \<Rightarrow> RunMessage" where
  "new_record s message now =
     \<lparr>rm_runId = sink_runId s, rm_index = index s, rm_messageType = msg_type message,
      rm_messageJson = MessageJson message, rm_createdAt = now\<rparr>"

definition sink_write ::
  "(RunMessage list \<Rightarrow> bool) \<Rightarrow> SDKMessage \<Rightarrow> int \<Rightarrow> Sink \<times> World \<Rightarrow> outcome \<times> Sink \<times> World" where
  "sink_write fails message now sw =
     (let s = fst sw; w = snd sw;
          s1 = s\<lparr>index := index s + 1, batch := batch s @ [new_record s message now]\<rparr>
      in if int (length (batch s1)) \<ge> batchSize s1 then flush fails (s1, w)
         else (Returned, scheduleFlush s1, w))"

definition sink_close :: "(RunMessage list \<Rightarrow> bool) \<Rightarrow> Sink \<times> World \<Rightarrow> outcome \<times> Sink \<times> World" where
  "sink_close fails sw = flush fails sw"

definition sink_abort :: "(RunMessage list \<Rightarrow> bool) \<Rightarrow> Sink \<times> World \<Rightarrow> outcome \<times> Sink \<times> World" where
  "sink_abort fails sw =
     (case flush fails sw of
        (Returned, s', w') \<Rightarrow>
          (Returned, s', w'\<lparr>console := console w' @ [''[StreamRecorder] Sink aborted:'']\<rparr>)
      | (Threw, s', w') \<Rightarrow> (Threw, s', w'))"

text \<open>
  \<open>recordBranch.pipeTo(sink).catch(err => log.error('Recording error', ...))\<close>. The
  \<open>WritableStream\<close> around the sink behaves as the Streams standard says: it is writable
  until it is closed or errored; a chunk of the branch is handed to \<open>write\<close> only while
  the stream is writable, one chunk at a time; a \<open>write\<close> or \<open>close\<close> that throws errors the
  stream and rejects the pipe, which the \<open>catch\<close> logs; the end of the branch closes the
  stream, an error of the branch aborts it with that error, which rejects the pipe as
  well. \<open>abort\<close> calls \<open>clearTimeout\<close> without resetting \<open>flushTimer\<close>; the \<open>flush\<close> that
  follows resets it whenever the buffer is not empty.
\<close>

datatype stream_state = Writable | Closed | Errored

record Recorder =
  sink :: Sink
  wstate :: stream_state

definition recording_error :: "World \<Rightarrow> World" where
  "recording_error w = w\<lparr>console := console w @ [''Recording error'']\<rparr>"

definition pipe_write ::
  "(RunMessage list \<Rightarrow> bool) \<Rightarrow> SDKMessage \<Rightarrow> int \<Rightarrow> Recorder \<times> World \<Rightarrow> Recorder \<times> World" where
  "pipe_write fails message now rw =
     (let r = fst rw; w = snd rw in
      if wstate r \<noteq> Writable then (r, w)
      else case sink_write fails message now (sink r, w) of
             (Returned, s', w') \<Rightarrow> (r\<lparr>sink := s'\<rparr>, w')
           | (Threw, s', w') \<Rightarrow> (r\<lparr>sink := s', wstate := Errored\<rparr>, recording_error w'))"

definition pipe_tick :: "(RunMessage list \<Rightarrow> bool) \<Rightarrow> Recorder \<times> World \<Rightarrow> Recorder \<times> World" where
  "pipe_tick fails rw =
     (case timerFires fails (sink (fst rw), snd rw) of
        (s', w') \<Rightarrow> ((fst rw)\<lparr>sink := s'\<rparr>, w'))"

definition pipe_close :: "(RunMessage list \<Rightarrow> bool) \<Rightarrow> Recorder \<times> World \<Rightarrow> Recorder \<times> World" where
  "pipe_close fails rw =
     (let r = fst rw; w = snd rw in
      if wstate r \<noteq> Writable then (r, w)
      else case sink_close fails (sink r, w) of
             (Returned, s', w') \<Rightarrow> (r\<lparr>sink := s', wstate := Closed\<rparr>, w')
           | (Threw, s', w') \<Rightarrow> (r\<lparr>sink := s', wstate := Errored\<rparr>, recording_error w'))"

definition pipe_abort :: "(RunMessage list \<Rightarrow> bool) \<Rightarrow> Recorder \<times> World \<Rightarrow> Recorder \<times> World" where
  "pipe_abort fails rw =
     (let r = fst rw; w = snd rw in
      if wstate r \<noteq> Writable then (r, w)
      else case sink_abort fails (sink r, w) of
             (oc, s', w') \<Rightarrow> (r\<lparr>sink := s', wstate := Errored\<rparr>, recording_error w'))"

text \<open>
  What reaches the recorder while the branch is open: a chunk (with the time of its
  \<open>write\<close>), or the flush timer firing between two chunks.
\<close>

datatype sink_event = Write SDKMessage int | Tick

fun pipe_event :: "(RunMessage list \<Rightarrow> bool) \<Rightarrow> sink_event \<Rightarrow> Recorder \<times> World \<Rightarrow> Recorder \<times> World" where
  "pipe_event fails (Write m t) rw = pipe_write fails m t rw"
| "pipe_event fails Tick rw = pipe_tick fails rw"

fun pipe_events :: "(RunMessage list \<Rightarrow> bool) \<Rightarrow> sink_event list \<Rightarrow> Recorder \<times> World \<Rightarrow> Recorder \<times> World" where
  "pipe_events fails [] rw = rw"
| "pipe_events fails (e # es) rw = pipe_events fails es (pipe_event fails e rw)"

text \<open>
  How the branch ends: it is closed when the provider's stream ends, and errored when the
  provider's stream throws.
\<close>

datatype stream_end = EndOfStream | StreamError string

definition pipe_end :: "(RunMessage list \<Rightarrow> bool) \<Rightarrow> stream_end \<Rightarrow> Recorder \<times> World \<Rightarrow> Recorder \<times> World" where
  "pipe_end fails fin rw =
     (case fin of EndOfStream \<Rightarrow> pipe_close fails rw | StreamError e \<Rightarrow> pipe_abort fails rw)"

definition WritableStream :: "Sink \<Rightarrow> Recorder" where
  "WritableStream s = \<lparr>sink = s, wstate = Writable\<rparr>"

definition pipeTo ::
  "(RunMessage list \<Rightarrow> bool) \<Rightarrow> Sink \<Rightarrow> sink_event list \<Rightarrow> stream_end \<Rightarrow> World \<Rightarrow> Recorder \<times> World" where
  "pipeTo fails s evs fin w = pipe_end fails fin (pipe_events fails evs (WritableStream s, w))"

text \<open>The chunks among the events, and the rows that \<open>write\<close> builds from them.\<close>

fun writes_of :: "sink_event list \<Rightarrow> (SDKMessage \<times> int) list" where
  "writes_of [] = []"
| "writes_of (Write m t # es) = (m, t) # writes_of es"
| "writes_of (Tick # es) = writes_of es"

fun records_from :: "string \<Rightarrow> nat \<Rightarrow> (SDKMessage \<times> int) list \<Rightarrow> RunMessage list" where
  "records_from runId i [] = []"
| "records_from runId i ((m, t) # ms) =
     \<lparr>rm_runId = runId, rm_index = i, rm_messageType = msg_type m,
      rm_messageJson = MessageJson m, rm_createdAt = t\<rparr> # records_from runId (Suc i) ms"


section \<open>The lifecycle notifier (\<open>webhook.ts\<close>)\<close>

text \<open>
  \<open>dispatchWebhook\<close> starts the HTTP POST and returns at once; what the request does later
  never reaches the caller. The notification handed over is appended to \<open>dispatched\<close>.
\<close>

definition dispatchWebhook :: "string \<Rightarrow> WebhookEvent \<Rightarrow> World \<Rightarrow> World" where
  "dispatchWebhook url event w = w\<lparr>dispatched := dispatched w @ [(url, event)]\<rparr>"

section \<open>The turn gate (\<open>executor.ts\<close>)\<close>

definition executeFresh :: "StartParams \<Rightarrow> ExecuteParams" where
  "executeFresh params =
     \<lparr>ep_cwd = sp_cwd params, ep_prompt = sp_prompt params, ep_images = sp_images params,
      ep_options = sp_options params, ep_sessionId = None\<rparr>"

definition executeResume :: "ResumeParams \<Rightarrow> string \<Rightarrow> ExecuteParams" where
  "executeResume params cwd =
     \<lparr>ep_cwd = cwd, ep_prompt = rp_prompt params, ep_images = rp_images params,
      ep_options = rp_options params, ep_sessionId = Some (rp_sessionId params)\<rparr>"

definition executeFork :: "ForkParams \<Rightarrow> string \<Rightarrow> ExecuteParams" where
  "executeFork params cwd =
     \<lparr>ep_cwd = cwd, ep_prompt = rp_prompt params, ep_images = rp_images params,
      ep_options = rp_options params, ep_sessionId = Some (rp_sessionId params)\<rparr>"

text \<open>
  The single user message (a text block, then one image block per attachment) and the
  options of the call: the caller's options with \<open>cwd\<close>, \<open>forkSession: true\<close> and \<open>resume\<close>
  set.
\<close>

definition provider_call :: "ExecuteParams \<Rightarrow> ProviderCall" where
  "provider_call p =
     \<lparr>pc_content = TextBlock (ep_prompt p) # map (\<lambda>img. ImageBlock (fst img) (snd img)) (ep_images p),
      pc_options = ep_options p, pc_cwd = ep_cwd p, pc_forkSession = True,
      pc_resume = ep_sessionId p\<rparr>"

text \<open>
  The state of one \<open>execute\<close> call. The input generator handed to \<open>query\<close> is at one of four
  points: not yet started, suspended at \<open>yield sdkUserMessage\<close>, suspended at
  \<open>await receivedResult\<close>, or returned, which is the end of the provider's input.
  \<open>receivedResult\<close> is whether the promise has been resolved by \<open>done()\<close>. \<open>enqueued\<close> is what
  \<open>pull\<close> has put into the \<open>ReadableStream\<close>, and \<open>readable\<close> the state of that stream.
\<close>

datatype generator_state = NotStarted | AtYield | AwaitingResult | InputEnded

datatype readable_state = Readable | ReadableClosed | ReadableErrored string

record Executor =
  ex_call :: ProviderCall
  receivedResult :: bool
  input :: generator_state
  enqueued :: "SDKMessage list"
  readable :: readable_state

definition execute :: "ExecuteParams \<Rightarrow> Executor" where
  "execute p =
     \<lparr>ex_call = provider_call p, receivedResult = False, input = NotStarted, enqueued = [],
      readable = Readable\<rparr>"

text \<open>
  The provider asks the input generator for its next element. The first request runs the
  generator to \<open>yield sdkUserMessage\<close>. The second resumes it into \<open>await receivedResult\<close>,
  where it returns if the promise is resolved and waits otherwise.
\<close>

definition input_next :: "Executor \<Rightarrow> Executor" where
  "input_next s =
     (case input s of
        NotStarted \<Rightarrow> s\<lparr>input := AtYield\<rparr>
      | AtYield \<Rightarrow> s\<lparr>input := (if receivedResult s then InputEnded else AwaitingResult)\<rparr>
      | AwaitingResult \<Rightarrow> s
      | InputEnded \<Rightarrow> s)"

text \<open>
  \<open>done()\<close> resolves the promise; a generator waiting on it runs on and returns. Nothing
  else in \<open>execute\<close> lets the generator return.
\<close>

definition done_call :: "Executor \<Rightarrow> Executor" where
  "done_call s =
     s\<lparr>receivedResult := True,
       input := (if input s = AwaitingResult then InputEnded else input s)\<rparr>"

text \<open>
  What \<open>await sdkStream.next()\<close> gives: \<open>{ value, done }\<close>, or an exception. \<open>pull\<close> runs only
  while the stream is readable.
\<close>

datatype next_result = NextResult "SDKMessage option" bool | NextThrows string

definition pull :: "next_result \<Rightarrow> Executor \<Rightarrow> Executor" where
  "pull r s =
     (if readable s \<noteq> Readable then s
      else case r of
        NextThrows e \<Rightarrow> s\<lparr>readable := ReadableErrored e\<rparr>
      | NextResult v isDone \<Rightarrow>
          (let s1 = (case v of
                       Some m \<Rightarrow> if msg_type m = ''result'' then done_call s else s
                     | None \<Rightarrow> s)
           in if isDone then s1\<lparr>readable := ReadableClosed\<rparr>
              else case v of
                     Some m \<Rightarrow> s1\<lparr>enqueued := enqueued s1 @ [m]\<rparr>
                   | None \<Rightarrow> s1))"

datatype executor_event = InputNext | Pull next_result

fun executor_step :: "executor_event \<Rightarrow> Executor \<Rightarrow> Executor" where
  "executor_step InputNext s = input_next s"
| "executor_step (Pull r) s = pull r s"

fun executor_events :: "executor_event list \<Rightarrow> Executor \<Rightarrow> Executor" where
  "executor_events [] s = s"
| "executor_events (e # es) s = executor_events es (executor_step e s)"

text \<open>A \<open>pull\<close> whose value is a message of type \<open>result\<close>.\<close>

fun pulls_result :: "executor_event \<Rightarrow> bool" where
  "pulls_result (Pull (NextResult (Some m) isDone)) = (msg_type m = ''result'')"
| "pulls_result e = False"


section \<open>The run orchestrator (\<open>run-manager.ts\<close>)\<close>

subsection \<open>Validation\<close>

text \<open>
  \<open>!s || s.trim().length === 0\<close>. \<open>trim\<close> removes white space at both ends; the white space
  and line terminator code units below 256 are TAB, LF, VT, FF, CR, SP and NBSP.
\<close>

definition is_space :: "char \<Rightarrow> bool" where
  "is_space c = (of_char c \<in> {9, 10, 11, 12, 13, 32, 160 :: nat})"

definition trim :: "string \<Rightarrow> string" where
  "trim s = rev (dropWhile is_space (rev (dropWhile is_space s)))"

definition blank :: "string \<Rightarrow> bool" where
  "blank s = (s = [] \<or> length (trim s) = 0)"

subsection \<open>The tables and the map of active runs\<close>

text \<open>
  The run table is a list of rows. A statement that succeeds has this effect: an insert
  appends a row (\<open>run_inserted\<close>), an \<open>update ... where id = runId\<close> changes the rows of that
  id (\<open>run_updated\<close>), and a \<open>select ... limit 1\<close> gives the first row that matches.
\<close>

definition run_inserted :: "Run \<Rightarrow> World \<Rightarrow> World" where
  "run_inserted row w = w\<lparr>runTable := runTable w @ [row]\<rparr>"

definition run_updated :: "string \<Rightarrow> (Run \<Rightarrow> Run) \<Rightarrow> World \<Rightarrow> World" where
  "run_updated runId f w =
     w\<lparr>runTable := map (\<lambda>r. if r_id r = runId then f r else r) (runTable w)\<rparr>"

definition select_by_sessionId :: "string \<Rightarrow> World \<Rightarrow> Run option" where
  "select_by_sessionId sid w = find (\<lambda>r. r_sessionId r = sid) (runTable w)"

definition getRun :: "string \<Rightarrow> World \<Rightarrow> Run option" where
  "getRun runId w = find (\<lambda>r. r_id r = runId) (runTable w)"

text \<open>
  A statement can also throw. Which statements the database fails is given by the
  predicate \<open>throws\<close>; besides, \<open>id\<close> is the primary key of the run table, so an insert
  throws on an id that the table holds already. A statement that throws changes nothing.
\<close>

definition insert_run :: "(db_call \<Rightarrow> bool) \<Rightarrow> Run \<Rightarrow> World \<Rightarrow> thrown_error + World" where
  "insert_run throws row w =
     (if throws (InsertRun (r_id row)) \<or> r_id row \<in> r_id ` set (runTable w)
      then Inl (SQLiteError (InsertRun (r_id row)))
      else Inr (run_inserted row w))"

definition update_run ::
  "(db_call \<Rightarrow> bool) \<Rightarrow> db_call \<Rightarrow> string \<Rightarrow> (Run \<Rightarrow> Run) \<Rightarrow> World \<Rightarrow> thrown_error + World" where
  "update_run throws call runId f w =
     (if throws call then Inl (SQLiteError call) else Inr (run_updated runId f w))"

definition select_runs :: "(db_call \<Rightarrow> bool) \<Rightarrow> string \<Rightarrow> World \<Rightarrow> thrown_error + Run option" where
  "select_runs throws sid w =
     (if throws (SelectBySessionId sid) then Inl (SQLiteError (SelectBySessionId sid))
      else Inr (select_by_sessionId sid w))"

definition activeRuns_set :: "string \<Rightarrow> ActiveRun \<Rightarrow> World \<Rightarrow> World" where
  "activeRuns_set k v w =
     w\<lparr>activeRuns := (if k \<in> set (activeRuns w) then activeRuns w else activeRuns w @ [k]),
       objects := (objects w)(k := Some v)\<rparr>"

definition getActiveRun :: "string \<Rightarrow> World \<Rightarrow> ActiveRun option" where
  "getActiveRun k w = (if k \<in> set (activeRuns w) then objects w k else None)"

definition activeRuns_delete :: "string \<Rightarrow> World \<Rightarrow> World" where
  "activeRuns_delete k w = w\<lparr>activeRuns := removeAll k (activeRuns w)\<rparr>"

text \<open>An assignment to a field of the \<open>ActiveRun\<close> object of a run.\<close>

definition modify_object :: "string \<Rightarrow> (ActiveRun \<Rightarrow> ActiveRun) \<Rightarrow> World \<Rightarrow> World" where
  "modify_object k f w = w\<lparr>objects := (objects w)(k := map_option f (objects w k))\<rparr>"

text \<open>\<open>query\<close> is called once per \<open>execute\<close>; the call is appended to \<open>providerCalls\<close>.\<close>

definition query :: "ExecuteParams \<Rightarrow> World \<Rightarrow> World" where
  "query p w = w\<lparr>providerCalls := providerCalls w @ [ex_call (execute p)]\<rparr>"

subsection \<open>A run in progress\<close>

text \<open>
  \<open>start\<close> and \<open>executeRun\<close> are asynchronous: between two reads of the stream other calls,
  \<open>cancel\<close> among them, run on the same process state. Each function is therefore cut at
  its reads of the stream. \<open>Task\<close> holds the local variables that live across the reads:
  those of \<open>start\<close> or \<open>executeRun\<close>, those of \<open>processStream\<close>, and the recording pipe that
  \<open>processStream\<close> starts on the other branch of the tee.

  The functions of this subsection and of the three that follow it describe a call all of
  whose statements on the run table succeed; they apply the effect of each statement
  directly. The last subsection describes the same code when a statement throws.
\<close>

record Task =
  t_runId :: string
  t_startTime :: int
  t_mode :: RunMode
  t_parentSessionId :: "string option"
  capturedSessionId :: string
  resultMessage :: "SDKMessage option"
  recorder :: Recorder

text \<open>
  From the allocation of the run id to the first read of the stream: the \<open>ActiveRun\<close> object
  is put into the map, the row is inserted, the provider is called, and the stream is teed
  into the recording pipe and the processing loop. The object literal sets no
  \<open>webhookUrl\<close>.
\<close>

definition admit ::
  "string \<Rightarrow> string \<Rightarrow> string \<Rightarrow> RunMode \<Rightarrow> string option \<Rightarrow> ExecuteParams \<Rightarrow> int \<Rightarrow> World
   \<Rightarrow> Task \<times> World" where
  "admit runId cwd prompt mode parent ep now w =
     (let activeRun = \<lparr>a_runId = runId, a_sessionId = [], a_mode = mode, a_status = Running,
                        a_startedAt = now, a_aborted = False, a_webhookUrl = None\<rparr>;
          w1 = activeRuns_set runId activeRun w;
          w2 = run_inserted \<lparr>r_id = runId, r_cwd = cwd, r_sessionId = [], r_parentSessionId = parent,
                           r_mode = mode, r_status = Running, r_prompt = prompt,
                           r_resultType = None, r_resultJson = None, r_durationMs = None,
                           r_createdAt = Some now\<rparr> w1;
          w3 = query ep w2
      in (\<lparr>t_runId = runId, t_startTime = now, t_mode = mode, t_parentSessionId = parent,
           capturedSessionId = [], resultMessage = None,
           recorder = WritableStream (createSinkDefault runId)\<rparr>, w3))"

text \<open>
  The body of the loop of \<open>processStream\<close> for one message. The stream never carries an
  empty chunk (\<open>pull\<close> enqueues a value only if there is one), so the \<open>continue\<close> of the
  loop is never taken.
\<close>

definition is_init :: "SDKMessage \<Rightarrow> bool" where
  "is_init message = (msg_type message = ''system'' \<and> subtype message = Some ''init'')"

definition process_message :: "SDKMessage \<Rightarrow> Task \<times> World \<Rightarrow> Task \<times> World" where
  "process_message message tw =
     (let t = fst tw; w = snd tw;
          tw1 = (if is_init message
                 then (t\<lparr>capturedSessionId := session_id message\<rparr>,
                       run_updated (t_runId t) (\<lambda>r. r\<lparr>r_sessionId := session_id message\<rparr>)
                         (modify_object (t_runId t) (\<lambda>a. a\<lparr>a_sessionId := session_id message\<rparr>) w))
                 else (t, w))
      in if msg_type message = ''result''
         then ((fst tw1)\<lparr>resultMessage := Some message\<rparr>, snd tw1)
         else tw1)"

text \<open>
  After the loop has ended without an exception. A field that \<open>set\<close> receives as
  \<open>undefined\<close> is left as it is in the row.
\<close>

definition isError :: "SDKMessage option \<Rightarrow> bool" where
  "isError rm =
     (case rm of None \<Rightarrow> False
      | Some m \<Rightarrow> (case subtype m of None \<Rightarrow> False | Some st \<Rightarrow> take 5 st = ''error''))"

definition complete_ok :: "int \<Rightarrow> Task \<times> World \<Rightarrow> RunResult \<times> World" where
  "complete_ok now tw =
     (let t = fst tw; w = snd tw;
          durationMs = now - t_startTime t;
          status = (if isError (resultMessage t) then Error else Completed);
          w1 = run_updated (t_runId t)
                 (\<lambda>r. r\<lparr>r_status := status,
                         r_resultType := (case resultMessage t of None \<Rightarrow> r_resultType r
                                          | Some m \<Rightarrow> (case subtype m of None \<Rightarrow> r_resultType r
                                                       | Some st \<Rightarrow> Some st)),
                         r_resultJson := map_option MessageJson (resultMessage t),
                         r_durationMs := Some durationMs\<rparr>) w;
          w2 = activeRuns_delete (t_runId t) w1
      in (\<lparr>res_runId = t_runId t, res_sessionId = capturedSessionId t,
           res_parentSessionId = t_parentSessionId t, res_mode = t_mode t, res_status = status,
           res_durationMs = durationMs, res_result = resultMessage t, res_error = None\<rparr>, w2))"

text \<open>The \<open>catch\<close> block, entered with the message of what was thrown.\<close>

definition complete_error :: "string \<Rightarrow> int \<Rightarrow> Task \<times> World \<Rightarrow> RunResult \<times> World" where
  "complete_error errorMessage now tw =
     (let t = fst tw; w = snd tw;
          durationMs = now - t_startTime t;
          w1 = run_updated (t_runId t)
                 (\<lambda>r. r\<lparr>r_status := Error, r_resultJson := Some (ErrorJson errorMessage),
                         r_durationMs := Some durationMs\<rparr>) w;
          w2 = activeRuns_delete (t_runId t) w1
      in (\<lparr>res_runId = t_runId t,
           res_sessionId = (case objects w (t_runId t) of Some a \<Rightarrow> a_sessionId a | None \<Rightarrow> []),
           res_parentSessionId = t_parentSessionId t, res_mode = t_mode t, res_status = Error,
           res_durationMs = durationMs, res_result = None, res_error = Some errorMessage\<rparr>, w2))"

subsection \<open>Cancel\<close>

definition cancel :: "string \<Rightarrow> World \<Rightarrow> (thrown_error + unit) \<times> World" where
  "cancel runId w =
     (case getActiveRun runId w of
        None \<Rightarrow> (Inl (RunAlreadyCompletedError runId), w)
      | Some activeRun \<Rightarrow>
          (let w1 = modify_object runId (\<lambda>a. a\<lparr>a_aborted := True, a_status := Cancelled\<rparr>) w;
               w2 = run_updated runId (\<lambda>r. r\<lparr>r_status := Cancelled\<rparr>) w1;
               w3 = activeRuns_delete runId w2
           in (Inr (), w3)))"

subsection \<open>What happens to a run between admission and the end of its stream\<close>

text \<open>
  The tee hands every message to both branches; the two consumers work on disjoint parts
  of the state. Between two messages the flush timer of the recorder may fire, and a
  caller may cancel the run. The stream goes on as the provider decides after the abort
  signal: with further messages, its end, or an exception.
\<close>

datatype run_event = Message SDKMessage int | TimerTick | CancelRequest

fun run_step :: "(RunMessage list \<Rightarrow> bool) \<Rightarrow> run_event \<Rightarrow> Task \<times> World \<Rightarrow> Task \<times> World" where
  "run_step fails (Message m now) tw =
     (case pipe_write fails m now (recorder (fst tw), snd tw) of
        (r', w') \<Rightarrow> process_message m ((fst tw)\<lparr>recorder := r'\<rparr>, w'))"
| "run_step fails TimerTick tw =
     (case pipe_tick fails (recorder (fst tw), snd tw) of
        (r', w') \<Rightarrow> ((fst tw)\<lparr>recorder := r'\<rparr>, w'))"
| "run_step fails CancelRequest tw = (fst tw, snd (cancel (t_runId (fst tw)) (snd tw)))"

fun run_events :: "(RunMessage list \<Rightarrow> bool) \<Rightarrow> run_event list \<Rightarrow> Task \<times> World \<Rightarrow> Task \<times> World" where
  "run_events fails [] tw = tw"
| "run_events fails (e # es) tw = run_events fails es (run_step fails e tw)"

definition finish ::
  "(RunMessage list \<Rightarrow> bool) \<Rightarrow> stream_end \<Rightarrow> int \<Rightarrow> Task \<times> World \<Rightarrow> RunResult \<times> World" where
  "finish fails fin now tw =
     (case pipe_end fails fin (recorder (fst tw), snd tw) of
        (r', w') \<Rightarrow>
          (case fin of
             EndOfStream \<Rightarrow> complete_ok now ((fst tw)\<lparr>recorder := r'\<rparr>, w')
           | StreamError e \<Rightarrow> complete_error e now ((fst tw)\<lparr>recorder := r'\<rparr>, w')))"

subsection \<open>Start, resume and fork\<close>

text \<open>
  A call is given the run id that \<open>crypto.randomUUID()\<close> returns, the time of the call,
  what happens while the run is in progress, how the stream ends and the time at which it
  ends. It gives what the caller receives, a thrown error or the result object, and the
  state it leaves.
\<close>

definition executeRun ::
  "(RunMessage list \<Rightarrow> bool) \<Rightarrow> ResumeParams \<Rightarrow> string \<Rightarrow> RunMode \<Rightarrow> string \<Rightarrow> string \<Rightarrow> int \<Rightarrow>
   run_event list \<Rightarrow> stream_end \<Rightarrow> int \<Rightarrow> World \<Rightarrow> RunResult \<times> World" where
  "executeRun fails params cwd mode parentSessionId runId t0 evs fin t1 w =
     finish fails fin t1
       (run_events fails evs
          (admit runId cwd (rp_prompt params) mode (Some parentSessionId)
             (if mode = Resume then executeResume params cwd else executeFork params cwd) t0 w))"

definition start ::
  "(RunMessage list \<Rightarrow> bool) \<Rightarrow> StartParams \<Rightarrow> string \<Rightarrow> int \<Rightarrow> run_event list \<Rightarrow> stream_end \<Rightarrow> int \<Rightarrow>
   World \<Rightarrow> (thrown_error + RunResult) \<times> World" where
  "start fails params runId t0 evs fin t1 w =
     (if blank (sp_prompt params)
      then (Inl (ValidationError ''Prompt cannot be empty'' ''prompt''), w)
      else if blank (sp_cwd params)
      then (Inl (ValidationError ''Working directory (cwd) is required'' ''cwd''), w)
      else case finish fails fin t1
                  (run_events fails evs
                     (admit runId (sp_cwd params) (sp_prompt params) Fresh None
                        (executeFresh params) t0 w)) of
             (res, w') \<Rightarrow> (Inr res, w'))"

definition resume ::
  "(RunMessage list \<Rightarrow> bool) \<Rightarrow> ResumeParams \<Rightarrow> string \<Rightarrow> int \<Rightarrow> run_event list \<Rightarrow> stream_end \<Rightarrow> int \<Rightarrow>
   World \<Rightarrow> (thrown_error + RunResult) \<times> World" where
  "resume fails params runId t0 evs fin t1 w =
     (if blank (rp_prompt params)
      then (Inl (ValidationError ''Prompt cannot be empty'' ''prompt''), w)
      else if blank (rp_sessionId params)
      then (Inl (ValidationError ''Session ID is required'' ''sessionId''), w)
      else case select_by_sessionId (rp_sessionId params) w of
             None \<Rightarrow> (Inl (SessionNotFoundError (rp_sessionId params)), w)
           | Some firstRun \<Rightarrow>
               (case executeRun fails params (r_cwd firstRun) Resume (rp_sessionId params)
                       runId t0 evs fin t1 w of
                  (res, w') \<Rightarrow> (Inr res, w')))"

definition fork ::
  "(RunMessage list \<Rightarrow> bool) \<Rightarrow> ForkParams \<Rightarrow> string \<Rightarrow> int \<Rightarrow> run_event list \<Rightarrow> stream_end \<Rightarrow> int \<Rightarrow>
   World \<Rightarrow> (thrown_error + RunResult) \<times> World" where
  "fork fails params runId t0 evs fin t1 w =
     (if blank (rp_prompt params)
      then (Inl (ValidationError ''Prompt cannot be empty'' ''prompt''), w)
      else if blank (rp_sessionId params)
      then (Inl (ValidationError ''Session ID is required'' ''sessionId''), w)
      else case select_by_sessionId (rp_sessionId params) w of
             None \<Rightarrow> (Inl (SessionNotFoundError (rp_sessionId params)), w)
           | Some firstRun \<Rightarrow>
               (case executeRun fails params (r_cwd firstRun) Fork (rp_sessionId params)
                       runId t0 evs fin t1 w of
                  (res, w') \<Rightarrow> (Inr res, w')))"

subsection \<open>When a statement on the run table throws\<close>

text \<open>
  The calls again, every statement on the run table now able to throw. Outside the \<open>try\<close>
  block and inside the \<open>catch\<close> block these statements are the only ones modelled as able
  to throw; the logger, the clock, \<open>crypto.randomUUID\<close> and the map of active runs are not.

  The insert of the row stands before the \<open>try\<close> block of \<open>start\<close> and \<open>executeRun\<close>: when it
  throws, the exception leaves the call, the \<open>ActiveRun\<close> object is in the map already, and
  the provider has not been called.
\<close>

definition admit_db ::
  "(db_call \<Rightarrow> bool) \<Rightarrow> string \<Rightarrow> string \<Rightarrow> string \<Rightarrow> RunMode \<Rightarrow> string option \<Rightarrow> ExecuteParams \<Rightarrow>
   int \<Rightarrow> World \<Rightarrow> (thrown_error \<times> World) + (Task \<times> World)" where
  "admit_db throws runId cwd prompt mode parent ep now w =
     (let activeRun = \<lparr>a_runId = runId, a_sessionId = [], a_mode = mode, a_status = Running,
                        a_startedAt = now, a_aborted = False, a_webhookUrl = None\<rparr>;
          w1 = activeRuns_set runId activeRun w
      in case insert_run throws
                \<lparr>r_id = runId, r_cwd = cwd, r_sessionId = [], r_parentSessionId = parent,
                 r_mode = mode, r_status = Running, r_prompt = prompt,
                 r_resultType = None, r_resultJson = None, r_durationMs = None,
                 r_createdAt = Some now\<rparr> w1 of
           Inl err \<Rightarrow> Inl (err, w1)
         | Inr w2 \<Rightarrow>
             Inr (\<lparr>t_runId = runId, t_startTime = now, t_mode = mode, t_parentSessionId = parent,
                   capturedSessionId = [], resultMessage = None,
                   recorder = WritableStream (createSinkDefault runId)\<rparr>, query ep w2))"

text \<open>
  The body of the loop. On an \<open>init\<close> message the session id is assigned to the local
  variable and to the \<open>ActiveRun\<close> object before the update of the row; when the update
  throws, the exception leaves the loop with these two assignments made.
\<close>

definition process_message_db ::
  "(db_call \<Rightarrow> bool) \<Rightarrow> SDKMessage \<Rightarrow> Task \<times> World \<Rightarrow> (thrown_error \<times> Task \<times> World) + (Task \<times> World)" where
  "process_message_db throws message tw =
     (let t = fst tw; w = snd tw;
          t1 = (if is_init message then t\<lparr>capturedSessionId := session_id message\<rparr> else t);
          w1 = (if is_init message
                then modify_object (t_runId t) (\<lambda>a. a\<lparr>a_sessionId := session_id message\<rparr>) w
                else w)
      in case (if is_init message
               then update_run throws (UpdateSessionId (t_runId t)) (t_runId t)
                      (\<lambda>r. r\<lparr>r_sessionId := session_id message\<rparr>) w1
               else Inr w1) of
           Inl err \<Rightarrow> Inl (err, t1, w1)
         | Inr w2 \<Rightarrow>
             Inr (if msg_type message = ''result'' then t1\<lparr>resultMessage := Some message\<rparr> else t1,
                  w2))"

text \<open>
  The \<open>catch\<close> block, entered with the message of what was thrown. Its update is not
  guarded: when it throws, the exception leaves the call, and the run stays in the map of
  active runs.
\<close>

definition catch_block ::
  "(db_call \<Rightarrow> bool) \<Rightarrow> string \<Rightarrow> int \<Rightarrow> Task \<times> World \<Rightarrow> (thrown_error + RunResult) \<times> World" where
  "catch_block throws errorMessage now tw =
     (let t = fst tw; w = snd tw;
          durationMs = now - t_startTime t
      in case update_run throws (UpdateError (t_runId t)) (t_runId t)
                (\<lambda>r. r\<lparr>r_status := Error, r_resultJson := Some (ErrorJson errorMessage),
                        r_durationMs := Some durationMs\<rparr>) w of
           Inl err \<Rightarrow> (Inl err, w)
         | Inr w1 \<Rightarrow>
             (Inr \<lparr>res_runId = t_runId t,
                   res_sessionId = (case objects w (t_runId t) of Some a \<Rightarrow> a_sessionId a | None \<Rightarrow> []),
                   res_parentSessionId = t_parentSessionId t, res_mode = t_mode t,
                   res_status = Error, res_durationMs = durationMs, res_result = None,
                   res_error = Some errorMessage\<rparr>,
              activeRuns_delete (t_runId t) w1))"

text \<open>
  The message of the database driver's error, and the rest of the \<open>try\<close> block after the
  loop has ended without an exception: when its update throws, the \<open>catch\<close> block is
  entered with that error.
\<close>

definition sqlite_message :: string where
  "sqlite_message = ''SQLiteError''"

definition after_loop ::
  "(db_call \<Rightarrow> bool) \<Rightarrow> int \<Rightarrow> Task \<times> World \<Rightarrow> (thrown_error + RunResult) \<times> World" where
  "after_loop throws now tw =
     (let t = fst tw; w = snd tw;
          durationMs = now - t_startTime t;
          status = (if isError (resultMessage t) then Error else Completed)
      in case update_run throws (UpdateOutcome (t_runId t)) (t_runId t)
                (\<lambda>r. r\<lparr>r_status := status,
                        r_resultType := (case resultMessage t of None \<Rightarrow> r_resultType r
                                         | Some m \<Rightarrow> (case subtype m of None \<Rightarrow> r_resultType r
                                                      | Some st \<Rightarrow> Some st)),
                        r_resultJson := map_option MessageJson (resultMessage t),
                        r_durationMs := Some durationMs\<rparr>) w of
           Inl err \<Rightarrow> catch_block throws sqlite_message now tw
         | Inr w1 \<Rightarrow>
             (Inr \<lparr>res_runId = t_runId t, res_sessionId = capturedSessionId t,
                   res_parentSessionId = t_parentSessionId t, res_mode = t_mode t,
                   res_status = status, res_durationMs = durationMs,
                   res_result = resultMessage t, res_error = None\<rparr>,
              activeRuns_delete (t_runId t) w1))"

text \<open>\<open>cancel\<close>: when its update throws, the run has been aborted but stays in the map.\<close>

definition cancel_db :: "(db_call \<Rightarrow> bool) \<Rightarrow> string \<Rightarrow> World \<Rightarrow> (thrown_error + unit) \<times> World" where
  "cancel_db throws runId w =
     (case getActiveRun runId w of
        None \<Rightarrow> (Inl (RunAlreadyCompletedError runId), w)
      | Some activeRun \<Rightarrow>
          (let w1 = modify_object runId (\<lambda>a. a\<lparr>a_aborted := True, a_status := Cancelled\<rparr>) w
           in case update_run throws (UpdateCancelled runId) runId
                     (\<lambda>r. r\<lparr>r_status := Cancelled\<rparr>) w1 of
                Inl err \<Rightarrow> (Inl err, w1)
              | Inr w2 \<Rightarrow> (Inr (), activeRuns_delete runId w2)))"

text \<open>
  A run in progress now has a third component: what the call has given its caller, once
  it has. An exception in the loop enters the \<open>catch\<close> block at once, so the call is
  settled before the stream ends; the stream goes on, and the recording pipe, which reads
  the other branch of the tee, with it.
\<close>

type_synonym settled = "(thrown_error + RunResult) option"

fun run_step_db ::
  "(db_call \<Rightarrow> bool) \<Rightarrow> (RunMessage list \<Rightarrow> bool) \<Rightarrow> run_event \<Rightarrow> Task \<times> settled \<times> World
   \<Rightarrow> Task \<times> settled \<times> World" where
  "run_step_db throws fails (Message m now) (t, out, w) =
     (case pipe_write fails m now (recorder t, w) of
        (r', w1) \<Rightarrow>
          (case out of
             Some res \<Rightarrow> (t\<lparr>recorder := r'\<rparr>, out, w1)
           | None \<Rightarrow>
               (case process_message_db throws m (t\<lparr>recorder := r'\<rparr>, w1) of
                  Inr (t2, w2) \<Rightarrow> (t2, None, w2)
                | Inl (err, t2, w2) \<Rightarrow>
                    (case catch_block throws sqlite_message now (t2, w2) of
                       (res, w3) \<Rightarrow> (t2, Some res, w3)))))"
| "run_step_db throws fails TimerTick (t, out, w) =
     (case pipe_tick fails (recorder t, w) of
        (r', w1) \<Rightarrow> (t\<lparr>recorder := r'\<rparr>, out, w1))"
| "run_step_db throws fails CancelRequest (t, out, w) =
     (t, out, snd (cancel_db throws (t_runId t) w))"

fun run_events_db ::
  "(db_call \<Rightarrow> bool) \<Rightarrow> (RunMessage list \<Rightarrow> bool) \<Rightarrow> run_event list \<Rightarrow> Task \<times> settled \<times> World
   \<Rightarrow> Task \<times> settled \<times> World" where
  "run_events_db throws fails [] s = s"
| "run_events_db throws fails (e # es) s =
     run_events_db throws fails es (run_step_db throws fails e s)"

fun finish_db ::
  "(db_call \<Rightarrow> bool) \<Rightarrow> (RunMessage list \<Rightarrow> bool) \<Rightarrow> stream_end \<Rightarrow> int \<Rightarrow> Task \<times> settled \<times> World
   \<Rightarrow> (thrown_error + RunResult) \<times> World" where
  "finish_db throws fails fin now (t, out, w) =
     (case pipe_end fails fin (recorder t, w) of
        (r', w1) \<Rightarrow>
          (case out of
             Some res \<Rightarrow> (res, w1)
           | None \<Rightarrow>
               (case fin of
                  EndOfStream \<Rightarrow> after_loop throws now (t\<lparr>recorder := r'\<rparr>, w1)
                | StreamError e \<Rightarrow> catch_block throws e now (t\<lparr>recorder := r'\<rparr>, w1))))"

definition executeRun_db ::
  "(db_call \<Rightarrow> bool) \<Rightarrow> (RunMessage list \<Rightarrow> bool) \<Rightarrow> ResumeParams \<Rightarrow> string \<Rightarrow> RunMode \<Rightarrow> string \<Rightarrow>
   string \<Rightarrow> int \<Rightarrow> run_event list \<Rightarrow> stream_end \<Rightarrow> int \<Rightarrow> World
   \<Rightarrow> (thrown_error + RunResult) \<times> World" where
  "executeRun_db throws fails params cwd mode parentSessionId runId t0 evs fin t1 w =
     (case admit_db throws runId cwd (rp_prompt params) mode (Some parentSessionId)
             (if mode = Resume then executeResume params cwd else executeFork params cwd) t0 w of
        Inl (err, w1) \<Rightarrow> (Inl err, w1)
      | Inr (t, w1) \<Rightarrow>
          finish_db throws fails fin t1 (run_events_db throws fails evs (t, None, w1)))"

definition start_db ::
  "(db_call \<Rightarrow> bool) \<Rightarrow> (RunMessage list \<Rightarrow> bool) \<Rightarrow> StartParams \<Rightarrow> string \<Rightarrow> int \<Rightarrow>
   run_event list \<Rightarrow> stream_end \<Rightarrow> int \<Rightarrow> World \<Rightarrow> (thrown_error + RunResult) \<times> World" where
  "start_db throws fails params runId t0 evs fin t1 w =
     (if blank (sp_prompt params)
      then (Inl (ValidationError ''Prompt cannot be empty'' ''prompt''), w)
      else if blank (sp_cwd params)
      then (Inl (ValidationError ''Working directory (cwd) is required'' ''cwd''), w)
      else case admit_db throws runId (sp_cwd params) (sp_prompt params) Fresh None
                  (executeFresh params) t0 w of
             Inl (err, w1) \<Rightarrow> (Inl err, w1)
           | Inr (t, w1) \<Rightarrow>
               finish_db throws fails fin t1 (run_events_db throws fails evs (t, None, w1)))"

definition resume_db ::
  "(db_call \<Rightarrow> bool) \<Rightarrow> (RunMessage list \<Rightarrow> bool) \<Rightarrow> ResumeParams \<Rightarrow> string \<Rightarrow> int \<Rightarrow>
   run_event list \<Rightarrow> stream_end \<Rightarrow> int \<Rightarrow> World \<Rightarrow> (thrown_error + RunResult) \<times> World" where
  "resume_db throws fails params runId t0 evs fin t1 w =
     (if blank (rp_prompt params)
      then (Inl (ValidationError ''Prompt cannot be empty'' ''prompt''), w)
      else if blank (rp_sessionId params)
      then (Inl (ValidationError ''Session ID is required'' ''sessionId''), w)
      else case select_runs throws (rp_sessionId params) w of
             Inl err \<Rightarrow> (Inl err, w)
           | Inr None \<Rightarrow> (Inl (SessionNotFoundError (rp_sessionId params)), w)
           | Inr (Some firstRun) \<Rightarrow>
               executeRun_db throws fails params (r_cwd firstRun) Resume (rp_sessionId params)
                 runId t0 evs fin t1 w)"

definition fork_db ::
  "(db_call \<Rightarrow> bool) \<Rightarrow> (RunMessage list \<Rightarrow> bool) \<Rightarrow> ForkParams \<Rightarrow> string \<Rightarrow> int \<Rightarrow>
   run_event list \<Rightarrow> stream_end \<Rightarrow> int \<Rightarrow> World \<Rightarrow> (thrown_error + RunResult) \<times> World" where
  "fork_db throws fails params runId t0 evs fin t1 w =
     (if blank (rp_prompt params)
      then (Inl (ValidationError ''Prompt cannot be empty'' ''prompt''), w)
      else if blank (rp_sessionId params)
      then (Inl (ValidationError ''Session ID is required'' ''sessionId''), w)
      else case select_runs throws (rp_sessionId params) w of
             Inl err \<Rightarrow> (Inl err, w)
           | Inr None \<Rightarrow> (Inl (SessionNotFoundError (rp_sessionId params)), w)
           | Inr (Some firstRun) \<Rightarrow>
               executeRun_db throws fails params (r_cwd firstRun) Fork (rp_sessionId params)
                 runId t0 evs fin t1 w)"




definition empty_world :: World where
  "empty_world =
     \<lparr>runTable = [], runMessageTable = [], insertCalls = [], activeRuns = [],
      objects = (\<lambda>k. None), providerCalls = [], dispatched = [], console = []\<rparr>"


section \<open>Invariants and sample data\<close>

text \<open>
  The invariants of the recording pipe used in the proofs below. \<open>ws\<close> are the chunks
  handed to the pipe so far, \<open>base\<close> and \<open>rows0\<close> what the insert calls and the table held
  when the sink was created, and \<open>k0\<close> the number of insert calls made by then.
\<close>

definition rec_inv :: "string \<Rightarrow> RunMessage list \<Rightarrow> (SDKMessage \<times> int) list \<Rightarrow> Recorder \<times> World \<Rightarrow> bool" where
  "rec_inv rid base ws rw =
     (sink_runId (sink (fst rw)) = rid \<and> index (sink (fst rw)) \<le> length ws \<and>
      (wstate (fst rw) = Writable \<longrightarrow> index (sink (fst rw)) = length ws) \<and>
      (wstate (fst rw) \<noteq> Writable \<longrightarrow> batch (sink (fst rw)) = []) \<and>
      concat (insertCalls (snd rw)) @ batch (sink (fst rw)) =
        base @ records_from rid 0 (take (index (sink (fst rw))) ws))"

definition rows_inv :: "string \<Rightarrow> RunMessage list \<Rightarrow> (SDKMessage \<times> int) list \<Rightarrow> Recorder \<times> World \<Rightarrow> bool" where
  "rows_inv rid rows0 ws rw =
     (wstate (fst rw) = Writable \<and>
      runMessageTable (snd rw) @ batch (sink (fst rw)) = rows0 @ records_from rid 0 ws)"

definition count_inv :: "int \<Rightarrow> nat \<Rightarrow> Recorder \<times> World \<Rightarrow> bool" where
  "count_inv B k0 rw =
     (batchSize (sink (fst rw)) = B \<and> int (length (batch (sink (fst rw)))) < B \<and>
      k0 \<le> length (insertCalls (snd rw)) \<and>
      int (index (sink (fst rw))) \<le>
        (int (length (insertCalls (snd rw))) - int k0) * B + int (length (batch (sink (fst rw)))))"


text \<open>
  The message table holds what it held at first, \<open>rows0\<close>, and then the rows of those
  insert calls made since (those after \<open>calls0\<close>) that did not throw.
\<close>

definition kept :: "(RunMessage list \<Rightarrow> bool) \<Rightarrow> RunMessage list list \<Rightarrow> RunMessage list \<Rightarrow> World \<Rightarrow> bool" where
  "kept fails calls0 rows0 w =
     (\<exists>calls. insertCalls w = calls0 @ calls \<and>
              runMessageTable w = rows0 @ concat (filter (\<lambda>b. \<not> fails b) calls))"

text \<open>Three messages of a short run, as the provider sends them.\<close>

definition sample_init :: SDKMessage where
  "sample_init = \<lparr>msg_type = ''system'', subtype = Some ''init'', session_id = ''s1'', content = []\<rparr>"

definition sample_assistant :: SDKMessage where
  "sample_assistant = \<lparr>msg_type = ''assistant'', subtype = None, session_id = ''s1'', content = ''4''\<rparr>"

definition sample_result :: SDKMessage where
  "sample_result = \<lparr>msg_type = ''result'', subtype = Some ''success'', session_id = ''s1'', content = ''4''\<rparr>"










text \<open>
  Sample calls, a message table whose insert never throws, and one whose insert of the
  rows with \<open>index\<close> 0 and 1 throws.
\<close>

definition no_failure :: "RunMessage list \<Rightarrow> bool" where
  "no_failure b = False"

definition first_batch_fails :: "RunMessage list \<Rightarrow> bool" where
  "first_batch_fails b = (map rm_index b = [0, 1])"




definition sample_start :: StartParams where
  "sample_start = \<lparr>sp_cwd = ''/tmp'', sp_prompt = ''2+2'', sp_images = [], sp_options = [],
     sp_webhookUrl = Some ''http://client/hook''\<rparr>"

definition sample_resume :: ResumeParams where
  "sample_resume = \<lparr>rp_sessionId = ''s1'', rp_prompt = ''and 3+3'', rp_images = [], rp_options = [],
     rp_webhookUrl = None\<rparr>"

definition sample_missing :: ResumeParams where
  "sample_missing = \<lparr>rp_sessionId = ''missing'', rp_prompt = ''x'', rp_images = [], rp_options = [],
     rp_webhookUrl = None\<rparr>"

definition sample_blank :: ResumeParams where
  "sample_blank = \<lparr>rp_sessionId = ''missing'', rp_prompt = [], rp_images = [], rp_options = [],
     rp_webhookUrl = None\<rparr>"

definition sample_init2 :: SDKMessage where
  "sample_init2 = \<lparr>msg_type = ''system'', subtype = Some ''init'', session_id = ''s2'', content = []\<rparr>"


definition sample_admitted :: "Task \<times> World" where
  "sample_admitted = admit ''r1'' ''/tmp'' ''2+2'' Fresh None (executeFresh sample_start) 0 empty_world"

section \<open>The batched recorder: proofs\<close>

lemma records_from_append:
  "records_from rid i (xs @ ys) = records_from rid i xs @ records_from rid (i + length xs) ys"
  by (induction xs arbitrary: i) auto

lemma records_from_index: "map rm_index (records_from rid i ws) = [i..<i + length ws]"
proof (induction ws arbitrary: i)
  case Nil
  show ?case by simp
next
  case (Cons a ws)
  have "[i..<i + length (a # ws)] = i # [Suc i..<Suc i + length ws]"
    by (subst upt_rec) simp
  with Cons[of "Suc i"] show ?case by (cases a) simp
qed

lemma records_from_runId: "x \<in> set (records_from rid i ws) \<Longrightarrow> rm_runId x = rid"
  by (induction ws arbitrary: i) auto

lemma records_from_length: "length (records_from rid i ws) = length ws"
  by (induction ws arbitrary: i) auto

text \<open>What one call of flush does.\<close>

lemma flush_empty: "batch s = [] \<Longrightarrow> flush fails (s, w) = (Returned, s, w)"
  by (simp add: flush_def)

lemma flush_fail:
  "batch s \<noteq> [] \<Longrightarrow> fails (batch s) \<Longrightarrow>
   flush fails (s, w) =
     (Threw, s\<lparr>batch := [], flushTimer := False\<rparr>, w\<lparr>insertCalls := insertCalls w @ [batch s]\<rparr>)"
  by (simp add: flush_def Let_def)

lemma flush_ok:
  "batch s \<noteq> [] \<Longrightarrow> \<not> fails (batch s) \<Longrightarrow>
   flush fails (s, w) =
     (Returned, s\<lparr>batch := [], flushTimer := False\<rparr>,
      w\<lparr>insertCalls := insertCalls w @ [batch s],
        runMessageTable := runMessageTable w @ batch s\<rparr>)"
  by (simp add: flush_def Let_def)


lemma flush_effect:
  assumes "flush fails (s, w) = (oc, s', w')"
  shows "(batch s = [] \<and> oc = Returned \<and> s' = s \<and> w' = w) \<or>
         (batch s \<noteq> [] \<and> s' = s\<lparr>batch := [], flushTimer := False\<rparr> \<and>
          insertCalls w' = insertCalls w @ [batch s] \<and>
          (if fails (batch s) then oc = Threw \<and> runMessageTable w' = runMessageTable w
           else oc = Returned \<and> runMessageTable w' = runMessageTable w @ batch s))"
proof (cases "batch s = []")
  case True
  with assms show ?thesis by (simp add: flush_empty)
next
  case False
  show ?thesis
  proof (cases "fails (batch s)")
    case True
    with False assms show ?thesis by (auto simp: flush_fail)
  next
    case nf: False
    with False assms show ?thesis by (auto simp: flush_ok)
  qed
qed

lemma flush_handed:
  assumes "flush fails (s, w) = (oc, s', w')"
  shows "concat (insertCalls w') @ batch s' = concat (insertCalls w) @ batch s"
    and "index s' = index s" and "sink_runId s' = sink_runId s" and "batchSize s' = batchSize s"
    and "batch s' = []"
  using flush_effect[OF assms] by auto

lemma flush_count:
  assumes "flush fails (s, w) = (oc, s', w')"
  shows "insertCalls w' = insertCalls w @ (if batch s = [] then [] else [batch s])"
    and "\<not> fails (batch s) \<Longrightarrow> oc = Returned \<and> runMessageTable w' = runMessageTable w @ batch s"
    and "fails (batch s) \<Longrightarrow> runMessageTable w' = runMessageTable w"
  using flush_effect[OF assms] by auto

lemma sink_write_unfold:
  "sink_write fails m t (s, w) =
     (if batchSize s \<le> int (length (batch s)) + 1
      then flush fails (s\<lparr>index := index s + 1, batch := batch s @ [new_record s m t]\<rparr>, w)
      else (Returned, scheduleFlush (s\<lparr>index := index s + 1, batch := batch s @ [new_record s m t]\<rparr>), w))"
  by (simp add: sink_write_def Let_def new_record_def)

lemma sink_write_handed_conj:
  assumes "sink_write fails m t (s, w) = (oc, s', w')"
  shows "concat (insertCalls w') @ batch s' = concat (insertCalls w) @ batch s @ [new_record s m t]
    \<and> index s' = Suc (index s) \<and> sink_runId s' = sink_runId s \<and> batchSize s' = batchSize s
    \<and> (oc = Threw \<longrightarrow> batch s' = [])"
proof (cases "batchSize s \<le> int (length (batch s)) + 1")
  case True
  let ?s1 = "s\<lparr>index := index s + 1, batch := batch s @ [new_record s m t]\<rparr>"
  from True assms have f: "flush fails (?s1, w) = (oc, s', w')" by (simp add: sink_write_unfold)
  from flush_handed[OF f] show ?thesis by simp
next
  case False
  with assms show ?thesis
    by (auto simp: sink_write_unfold scheduleFlush_def)
qed

lemma sink_write_handed:
  assumes "sink_write fails m t (s, w) = (oc, s', w')"
  shows "concat (insertCalls w') @ batch s' = concat (insertCalls w) @ batch s @ [new_record s m t]"
    and "index s' = Suc (index s)" and "sink_runId s' = sink_runId s" and "batchSize s' = batchSize s"
    and "oc = Threw \<Longrightarrow> batch s' = []"
  using sink_write_handed_conj[OF assms] by simp_all

lemma records_from_snoc:
  "records_from rid 0 (ws @ [(m, t)]) =
   records_from rid 0 ws @ [\<lparr>rm_runId = rid, rm_index = length ws, rm_messageType = msg_type m,
      rm_messageJson = MessageJson m, rm_createdAt = t\<rparr>]"
  by (simp add: records_from_append)

lemma rec_inv_write:
  assumes "rec_inv rid base ws (r, w)"
  shows "rec_inv rid base (ws @ [(m, t)]) (pipe_write fails m t (r, w))"
proof (cases "wstate r = Writable")
  case False
  with assms show ?thesis by (auto simp: pipe_write_def rec_inv_def)
next
  case True
  obtain oc s' w' where sw: "sink_write fails m t (sink r, w) = (oc, s', w')"
    by (cases "sink_write fails m t (sink r, w)") auto
  note h = sink_write_handed[OF sw]
  from assms True have i: "index (sink r) = length ws" "sink_runId (sink r) = rid"
    and c: "concat (insertCalls w) @ batch (sink r) = base @ records_from rid 0 ws"
    by (simp_all add: rec_inv_def)
  have nr: "new_record (sink r) m t = \<lparr>rm_runId = rid, rm_index = length ws, rm_messageType = msg_type m,
      rm_messageJson = MessageJson m, rm_createdAt = t\<rparr>"
    by (simp add: new_record_def i)
  have c': "concat (insertCalls w') @ batch s' = base @ records_from rid 0 (ws @ [(m, t)])"
    using h(1) c nr by (simp add: records_from_snoc)
  show ?thesis
  proof (cases oc)
    case Returned
    with True sw h(2,3) i c' show ?thesis
      by (simp add: pipe_write_def rec_inv_def)
  next
    case Threw
    with True sw h(2,3,5) i c' show ?thesis
      by (simp add: pipe_write_def rec_inv_def recording_error_def)
  qed
qed


lemma timerFires_handed:
  assumes "timerFires fails (s, w) = (s', w')"
  shows "concat (insertCalls w') @ batch s' = concat (insertCalls w) @ batch s"
    and "index s' = index s" and "sink_runId s' = sink_runId s" and "batchSize s' = batchSize s"
    and "batch s = [] \<Longrightarrow> batch s' = []"
proof -
  obtain oc s1 w1 where f: "flush fails (s, w) = (oc, s1, w1)"
    by (cases "flush fails (s, w)") auto
  have e: "s' = s \<and> insertCalls w' = insertCalls w \<or> s' = s1 \<and> insertCalls w' = insertCalls w1"
    using assms f by (cases oc) (auto simp: timerFires_def split: if_splits)
  from e flush_handed[OF f]
  show "concat (insertCalls w') @ batch s' = concat (insertCalls w) @ batch s"
    and "index s' = index s" and "sink_runId s' = sink_runId s" and "batchSize s' = batchSize s"
    and "batch s = [] \<Longrightarrow> batch s' = []"
    by auto
qed

lemma rec_inv_tick:
  assumes "rec_inv rid base ws (r, w)"
  shows "rec_inv rid base ws (pipe_tick fails (r, w))"
proof -
  obtain s' w' where t: "timerFires fails (sink r, w) = (s', w')"
    by (cases "timerFires fails (sink r, w)") auto
  from timerFires_handed[OF t] assms t show ?thesis
    by (auto simp: pipe_tick_def rec_inv_def)
qed

lemma rec_inv_close:
  assumes "rec_inv rid base ws (r, w)"
  shows "rec_inv rid base ws (pipe_close fails (r, w))"
proof (cases "wstate r = Writable")
  case False
  with assms show ?thesis by (auto simp: pipe_close_def)
next
  case True
  obtain oc s' w' where f: "flush fails (sink r, w) = (oc, s', w')"
    by (cases "flush fails (sink r, w)") auto
  from flush_handed[OF f] assms True f show ?thesis
    by (cases oc) (auto simp: pipe_close_def sink_close_def rec_inv_def recording_error_def)
qed

lemma rec_inv_abort:
  assumes "rec_inv rid base ws (r, w)"
  shows "rec_inv rid base ws (pipe_abort fails (r, w))"
proof (cases "wstate r = Writable")
  case False
  with assms show ?thesis by (auto simp: pipe_abort_def)
next
  case True
  obtain oc s' w' where f: "flush fails (sink r, w) = (oc, s', w')"
    by (cases "flush fails (sink r, w)") auto
  from flush_handed[OF f] assms True f show ?thesis
    by (cases oc) (auto simp: pipe_abort_def sink_abort_def rec_inv_def recording_error_def)
qed

lemma rec_inv_events:
  "rec_inv rid base ws rw \<Longrightarrow> rec_inv rid base (ws @ writes_of evs) (pipe_events fails evs rw)"
proof (induction evs arbitrary: ws rw)
  case Nil
  then show ?case by simp
next
  case (Cons e evs)
  obtain r w where rw: "rw = (r, w)" by (cases rw)
  show ?case
  proof (cases e)
    case (Write m t)
    from Cons.prems rw have "rec_inv rid base (ws @ [(m, t)]) (pipe_write fails m t rw)"
      by (simp add: rec_inv_write)
    from Cons.IH[OF this] Write show ?thesis by simp
  next
    case Tick
    from Cons.prems rw have "rec_inv rid base ws (pipe_tick fails rw)"
      by (simp add: rec_inv_tick)
    from Cons.IH[OF this] Tick show ?thesis by simp
  qed
qed

lemma rec_inv_init:
  "rec_inv rid (concat (insertCalls w)) [] (WritableStream (createSink rid B ms), w)"
  by (simp add: rec_inv_def createSink_def WritableStream_def)

lemma rec_inv_pipeTo:
  "rec_inv rid (concat (insertCalls w)) (writes_of evs) (pipeTo fails (createSink rid B ms) evs fin w)"
proof -
  have "rec_inv rid (concat (insertCalls w)) ([] @ writes_of evs)
          (pipe_events fails evs (WritableStream (createSink rid B ms), w))"
    by (rule rec_inv_events[OF rec_inv_init])
  then show ?thesis
    by (cases fin; cases "pipe_events fails evs (WritableStream (createSink rid B ms), w)")
       (simp_all add: pipeTo_def pipe_end_def rec_inv_close rec_inv_abort)
qed


lemma pipe_end_not_writable: "wstate (fst (pipe_end fails fin rw)) \<noteq> Writable"
proof (cases "wstate (fst rw) = Writable")
  case False
  then show ?thesis
    by (cases fin) (simp_all add: pipe_end_def pipe_close_def pipe_abort_def)
next
  case True
  obtain oc s' w' where f: "flush fails (sink (fst rw), snd rw) = (oc, s', w')"
    by (cases "flush fails (sink (fst rw), snd rw)") auto
  with True show ?thesis
    by (cases fin; cases oc)
       (simp_all add: pipe_end_def pipe_close_def pipe_abort_def sink_close_def sink_abort_def)
qed

text \<open>When no insert throws.\<close>

lemma sink_write_rows:
  assumes nf: "\<forall>b. \<not> fails b" and sw: "sink_write fails m t (s, w) = (oc, s', w')"
  shows "oc = Returned \<and> runMessageTable w' @ batch s' = runMessageTable w @ batch s @ [new_record s m t]"
proof (cases "batchSize s \<le> int (length (batch s)) + 1")
  case True
  let ?s1 = "s\<lparr>index := index s + 1, batch := batch s @ [new_record s m t]\<rparr>"
  from True sw have f: "flush fails (?s1, w) = (oc, s', w')" by (simp add: sink_write_unfold)
  from flush_count(2)[OF f] flush_handed(5)[OF f] nf show ?thesis by simp
next
  case False
  with sw show ?thesis by (auto simp: sink_write_unfold scheduleFlush_def)
qed

lemma timerFires_rows:
  assumes nf: "\<forall>b. \<not> fails b" and t: "timerFires fails (s, w) = (s', w')"
  shows "runMessageTable w' @ batch s' = runMessageTable w @ batch s"
proof (cases "flushTimer s")
  case False
  with t show ?thesis by (simp add: timerFires_def)
next
  case True
  obtain oc s1 w1 where f: "flush fails (s, w) = (oc, s1, w1)"
    by (cases "flush fails (s, w)") auto
  from flush_count(2)[OF f] nf have "oc = Returned" "runMessageTable w1 = runMessageTable w @ batch s"
    by simp_all
  with t True f flush_handed(5)[OF f] show ?thesis by (simp add: timerFires_def)
qed

lemma rows_inv_write:
  assumes nf: "\<forall>b. \<not> fails b" and ri: "rec_inv rid base ws (r, w)" and ro: "rows_inv rid rows0 ws (r, w)"
  shows "rows_inv rid rows0 (ws @ [(m, t)]) (pipe_write fails m t (r, w))"
proof -
  obtain oc s' w' where sw: "sink_write fails m t (sink r, w) = (oc, s', w')"
    by (cases "sink_write fails m t (sink r, w)") auto
  from ro have wr: "wstate r = Writable" by (simp add: rows_inv_def)
  with ri have i: "index (sink r) = length ws" "sink_runId (sink r) = rid"
    by (simp_all add: rec_inv_def)
  have nr: "new_record (sink r) m t = \<lparr>rm_runId = rid, rm_index = length ws, rm_messageType = msg_type m,
      rm_messageJson = MessageJson m, rm_createdAt = t\<rparr>"
    by (simp add: new_record_def i)
  from sink_write_rows[OF nf sw] ro wr sw nr show ?thesis
    by (simp add: rows_inv_def pipe_write_def records_from_snoc)
qed

lemma rows_inv_tick:
  assumes nf: "\<forall>b. \<not> fails b" and ro: "rows_inv rid rows0 ws (r, w)"
  shows "rows_inv rid rows0 ws (pipe_tick fails (r, w))"
proof -
  obtain s' w' where t: "timerFires fails (sink r, w) = (s', w')"
    by (cases "timerFires fails (sink r, w)") auto
  from timerFires_rows[OF nf t] ro t show ?thesis
    by (simp add: rows_inv_def pipe_tick_def)
qed

lemma rows_inv_events:
  assumes nf: "\<forall>b. \<not> fails b"
  shows "rec_inv rid base ws rw \<Longrightarrow> rows_inv rid rows0 ws rw \<Longrightarrow>
         rows_inv rid rows0 (ws @ writes_of evs) (pipe_events fails evs rw)"
proof (induction evs arbitrary: ws rw)
  case Nil
  then show ?case by simp
next
  case (Cons e evs)
  obtain r w where rw: "rw = (r, w)" by (cases rw)
  show ?case
  proof (cases e)
    case (Write m t)
    from Cons.prems rw have a: "rec_inv rid base (ws @ [(m, t)]) (pipe_write fails m t rw)"
      by (simp add: rec_inv_write)
    from Cons.prems rw nf have b: "rows_inv rid rows0 (ws @ [(m, t)]) (pipe_write fails m t rw)"
      by (simp add: rows_inv_write)
    from Cons.IH[OF a b] Write show ?thesis by simp
  next
    case Tick
    from Cons.prems rw have a: "rec_inv rid base ws (pipe_tick fails rw)"
      by (simp add: rec_inv_tick)
    from Cons.prems rw nf have b: "rows_inv rid rows0 ws (pipe_tick fails rw)"
      by (simp add: rows_inv_tick)
    from Cons.IH[OF a b] Tick show ?thesis by simp
  qed
qed

lemma pipe_end_rows:
  assumes nf: "\<forall>b. \<not> fails b" and ro: "rows_inv rid rows0 ws rw"
  shows "runMessageTable (snd (pipe_end fails fin rw)) = rows0 @ records_from rid 0 ws"
proof -
  obtain r w where rw: "rw = (r, w)" by (cases rw)
  obtain oc s' w' where f: "flush fails (sink r, w) = (oc, s', w')"
    by (cases "flush fails (sink r, w)") auto
  from flush_count(2)[OF f] nf have "oc = Returned" "runMessageTable w' = runMessageTable w @ batch (sink r)"
    by simp_all
  with ro rw f show ?thesis
    by (cases fin)
       (simp_all add: rows_inv_def pipe_end_def pipe_close_def pipe_abort_def sink_close_def
          sink_abort_def recording_error_def)
qed

lemma pipeTo_rows:
  assumes nf: "\<forall>b. \<not> fails b"
  shows "runMessageTable (snd (pipeTo fails (createSink rid B ms) evs fin w)) =
         runMessageTable w @ records_from rid 0 (writes_of evs)"
proof -
  let ?rw0 = "(WritableStream (createSink rid B ms), w)"
  have r0: "rows_inv rid (runMessageTable w) [] ?rw0"
    by (simp add: rows_inv_def createSink_def WritableStream_def)
  have "rows_inv rid (runMessageTable w) ([] @ writes_of evs) (pipe_events fails evs ?rw0)"
    by (rule rows_inv_events[OF nf rec_inv_init r0])
  then show ?thesis
    using pipe_end_rows[OF nf] by (simp add: pipeTo_def)
qed

lemma pipe_end_index: "index (sink (fst (pipe_end fails fin rw))) = index (sink (fst rw))"
proof (cases "wstate (fst rw) = Writable")
  case False
  then show ?thesis
    by (cases fin) (simp_all add: pipe_end_def pipe_close_def pipe_abort_def)
next
  case True
  obtain oc s' w' where f: "flush fails (sink (fst rw), snd rw) = (oc, s', w')"
    by (cases "flush fails (sink (fst rw), snd rw)") auto
  with True flush_handed(2)[OF f] show ?thesis
    by (cases fin; cases oc)
       (simp_all add: pipe_end_def pipe_close_def pipe_abort_def sink_close_def sink_abort_def)
qed

lemma count_flush:
  assumes B: "1 \<le> B" and f: "flush fails (s, w) = (oc, s', w')"
    and bs: "batchSize s = B" and len: "int (length (batch s)) \<le> B" and k: "k0 \<le> length (insertCalls w)"
    and ix: "int (index s) \<le> (int (length (insertCalls w)) - int k0) * B + int (length (batch s))"
  shows "batchSize s' = B \<and> int (length (batch s')) < B \<and> k0 \<le> length (insertCalls w') \<and>
         int (index s') \<le> (int (length (insertCalls w')) - int k0) * B + int (length (batch s'))"
proof (cases "batch s = []")
  case True
  with f have "s' = s" "w' = w" by (simp_all add: flush_empty)
  with True B bs k ix show ?thesis by simp
next
  case False
  from flush_count(1)[OF f] False have c: "insertCalls w' = insertCalls w @ [batch s]" by simp
  have "int (index s) \<le> (int (length (insertCalls w)) - int k0) * B + B"
    using ix len by linarith
  also have "\<dots> = (int (length (insertCalls w)) + 1 - int k0) * B"
    by (simp add: algebra_simps)
  finally have "int (index s) \<le> (int (length (insertCalls w')) - int k0) * B"
    using c by (simp add: add.commute)
  with flush_handed[OF f] B bs k c show ?thesis by simp
qed

lemma count_inv_write:
  assumes B: "1 \<le> B" and ci: "count_inv B k0 (r, w)"
  shows "count_inv B k0 (pipe_write fails m t (r, w))"
proof (cases "wstate r = Writable")
  case False
  with ci show ?thesis by (simp add: pipe_write_def)
next
  case True
  let ?s = "sink r"
  let ?s1 = "?s\<lparr>index := index ?s + 1, batch := batch ?s @ [new_record ?s m t]\<rparr>"
  from ci have bs: "batchSize ?s = B" and len: "int (length (batch ?s)) < B"
    and k: "k0 \<le> length (insertCalls w)"
    and ix: "int (index ?s) \<le> (int (length (insertCalls w)) - int k0) * B + int (length (batch ?s))"
    by (auto simp: count_inv_def)
  show ?thesis
  proof (cases "batchSize ?s \<le> int (length (batch ?s)) + 1")
    case full: True
    obtain oc s' w' where f: "flush fails (?s1, w) = (oc, s', w')"
      by (cases "flush fails (?s1, w)") auto
    have "batchSize s' = B \<and> int (length (batch s')) < B \<and> k0 \<le> length (insertCalls w') \<and>
         int (index s') \<le> (int (length (insertCalls w')) - int k0) * B + int (length (batch s'))"
      using bs len k ix by (intro count_flush[OF B f]) simp_all
    with True full f show ?thesis
      by (cases oc) (simp_all add: pipe_write_def sink_write_unfold count_inv_def recording_error_def)
  next
    case False
    with True bs len k ix show ?thesis
      by (simp add: pipe_write_def sink_write_unfold count_inv_def scheduleFlush_def)
  qed
qed

lemma count_inv_tick:
  assumes B: "1 \<le> B" and ci: "count_inv B k0 (r, w)"
  shows "count_inv B k0 (pipe_tick fails (r, w))"
proof (cases "flushTimer (sink r)")
  case False
  with ci show ?thesis by (simp add: pipe_tick_def timerFires_def)
next
  case True
  obtain oc s' w' where f: "flush fails (sink r, w) = (oc, s', w')"
    by (cases "flush fails (sink r, w)") auto
  have "batchSize s' = B \<and> int (length (batch s')) < B \<and> k0 \<le> length (insertCalls w') \<and>
         int (index s') \<le> (int (length (insertCalls w')) - int k0) * B + int (length (batch s'))"
    using ci by (intro count_flush[OF B f]) (auto simp: count_inv_def)
  with True f show ?thesis
    by (cases oc) (simp_all add: pipe_tick_def timerFires_def count_inv_def)
qed

lemma count_inv_events:
  assumes B: "1 \<le> B"
  shows "count_inv B k0 rw \<Longrightarrow> count_inv B k0 (pipe_events fails evs rw)"
proof (induction evs arbitrary: rw)
  case Nil
  then show ?case by simp
next
  case (Cons e evs)
  obtain r w where rw: "rw = (r, w)" by (cases rw)
  from Cons.prems rw B have "count_inv B k0 (pipe_event fails e rw)"
    by (cases e) (simp_all add: count_inv_write count_inv_tick)
  from Cons.IH[OF this] show ?case by simp
qed

lemma count_inv_bound:
  assumes B: "1 \<le> B" and ci: "count_inv B k0 rw"
  shows "index (sink (fst rw)) div nat B \<le> length (insertCalls (snd rw)) - k0"
proof -
  let ?k = "length (insertCalls (snd rw)) - k0"
  let ?n = "index (sink (fst rw))"
  from ci have k: "int ?k = int (length (insertCalls (snd rw))) - int k0"
    by (auto simp: count_inv_def)
  from ci have "int ?n < (int (length (insertCalls (snd rw))) - int k0) * B + B"
    by (auto simp: count_inv_def)
  also have "\<dots> = (int ?k + 1) * B"
    using k by (simp add: algebra_simps)
  also have "\<dots> = int (?k + 1) * int (nat B)"
    using B by simp
  also have "\<dots> = int ((?k + 1) * nat B)"
    by (simp only: of_nat_mult)
  finally have "?n < (?k + 1) * nat B" by linarith
  then have "?n div nat B < ?k + 1" by (rule less_mult_imp_div_less)
  then show ?thesis by simp
qed


lemmas recorder_defs = pipeTo_def pipe_end_def pipe_close_def pipe_abort_def pipe_write_def pipe_tick_def
  sink_write_def sink_close_def sink_abort_def flush_def timerFires_def scheduleFlush_def
  new_record_def WritableStream_def createSink_def createSinkDefault_def recording_error_def
  empty_world_def Let_def

lemmas sample_defs = sample_init_def sample_assistant_def sample_result_def

lemmas executor_defs = execute_def provider_call_def executeFresh_def pull_def done_call_def
  input_next_def Let_def

lemmas orchestrator_defs = start_def resume_def fork_def executeRun_def finish_def admit_def
  process_message_def complete_ok_def complete_error_def cancel_def isError_def is_init_def
  run_inserted_def run_updated_def select_by_sessionId_def getRun_def activeRuns_set_def
  getActiveRun_def activeRuns_delete_def modify_object_def query_def execute_def provider_call_def
  executeFresh_def executeResume_def executeFork_def blank_def trim_def is_space_def

lemmas sample_call_defs = sample_start_def sample_resume_def sample_missing_def sample_blank_def
  sample_init2_def sample_admitted_def no_failure_def

lemma kept_console: "kept fails calls0 rows0 (w\<lparr>console := c\<rparr>) = kept fails calls0 rows0 w"
  by (simp add: kept_def)

lemma flush_kept:
  assumes "kept fails calls0 rows0 (snd sw)"
  shows "kept fails calls0 rows0 (snd (snd (flush fails sw)))"
proof -
  obtain oc s' w' where f: "flush fails (fst sw, snd sw) = (oc, s', w')"
    by (cases "flush fails (fst sw, snd sw)") auto
  from assms obtain calls where c: "insertCalls (snd sw) = calls0 @ calls"
    "runMessageTable (snd sw) = rows0 @ concat (filter (\<lambda>b. \<not> fails b) calls)"
    by (auto simp: kept_def)
  from flush_effect[OF f] show ?thesis
  proof
    assume "batch (fst sw) = [] \<and> oc = Returned \<and> s' = fst sw \<and> w' = snd sw"
    with f assms show ?thesis by simp
  next
    assume a: "batch (fst sw) \<noteq> [] \<and> s' = (fst sw)\<lparr>batch := [], flushTimer := False\<rparr> \<and>
          insertCalls w' = insertCalls (snd sw) @ [batch (fst sw)] \<and>
          (if fails (batch (fst sw)) then oc = Threw \<and> runMessageTable w' = runMessageTable (snd sw)
           else oc = Returned \<and> runMessageTable w' = runMessageTable (snd sw) @ batch (fst sw))"
    then have "insertCalls w' = calls0 @ (calls @ [batch (fst sw)]) \<and>
        runMessageTable w' = rows0 @ concat (filter (\<lambda>b. \<not> fails b) (calls @ [batch (fst sw)]))"
      using c by (cases "fails (batch (fst sw))") simp_all
    then have "kept fails calls0 rows0 w'" unfolding kept_def by blast
    with f show ?thesis by simp
  qed
qed

lemma timerFires_kept:
  assumes "kept fails calls0 rows0 (snd sw)"
  shows "kept fails calls0 rows0 (snd (timerFires fails sw))"
proof -
  obtain oc s' w' where f: "flush fails sw = (oc, s', w')"
    by (cases "flush fails sw") auto
  with flush_kept[OF assms] have "kept fails calls0 rows0 w'" by simp
  with f assms show ?thesis
    by (cases oc) (simp_all add: timerFires_def kept_console)
qed

lemma sink_write_kept:
  assumes "kept fails calls0 rows0 (snd sw)"
  shows "kept fails calls0 rows0 (snd (snd (sink_write fails m t sw)))"
  using assms flush_kept[of fails calls0 rows0
      "((fst sw)\<lparr>index := index (fst sw) + 1, batch := batch (fst sw) @ [new_record (fst sw) m t]\<rparr>, snd sw)"]
  by (simp add: sink_write_def Let_def)

lemma pipe_write_kept:
  assumes "kept fails calls0 rows0 (snd rw)"
  shows "kept fails calls0 rows0 (snd (pipe_write fails m t rw))"
proof -
  obtain oc s' w' where f: "sink_write fails m t (sink (fst rw), snd rw) = (oc, s', w')"
    by (cases "sink_write fails m t (sink (fst rw), snd rw)") auto
  with sink_write_kept[of fails calls0 rows0 "(sink (fst rw), snd rw)" m t] assms
  have "kept fails calls0 rows0 w'" by simp
  with f assms show ?thesis
    by (cases oc) (simp_all add: pipe_write_def Let_def recording_error_def kept_console)
qed

lemma pipe_tick_kept:
  assumes "kept fails calls0 rows0 (snd rw)"
  shows "kept fails calls0 rows0 (snd (pipe_tick fails rw))"
proof -
  obtain s' w' where f: "timerFires fails (sink (fst rw), snd rw) = (s', w')"
    by (cases "timerFires fails (sink (fst rw), snd rw)") auto
  with timerFires_kept[of fails calls0 rows0 "(sink (fst rw), snd rw)"] assms show ?thesis
    by (simp add: pipe_tick_def)
qed

lemma pipe_end_kept:
  assumes "kept fails calls0 rows0 (snd rw)"
  shows "kept fails calls0 rows0 (snd (pipe_end fails fin rw))"
proof -
  obtain oc s' w' where f: "flush fails (sink (fst rw), snd rw) = (oc, s', w')"
    by (cases "flush fails (sink (fst rw), snd rw)") auto
  with flush_kept[of fails calls0 rows0 "(sink (fst rw), snd rw)"] assms
  have "kept fails calls0 rows0 w'" by simp
  with f assms show ?thesis
    by (cases fin; cases oc)
       (simp_all add: pipe_end_def pipe_close_def pipe_abort_def sink_close_def sink_abort_def
          Let_def recording_error_def kept_console)
qed

lemma pipe_events_kept:
  "kept fails calls0 rows0 (snd rw) \<Longrightarrow> kept fails calls0 rows0 (snd (pipe_events fails evs rw))"
proof (induction evs arbitrary: rw)
  case Nil
  then show ?case by simp
next
  case (Cons e evs)
  from Cons.prems have "kept fails calls0 rows0 (snd (pipe_event fails e rw))"
    by (cases e) (simp_all add: pipe_write_kept pipe_tick_kept)
  from Cons.IH[OF this] show ?case by simp
qed

lemma pipeTo_kept:
  "kept fails (insertCalls w) (runMessageTable w) (snd (pipeTo fails s evs fin w))"
proof -
  have "kept fails (insertCalls w) (runMessageTable w) (snd (WritableStream s, w))"
    by (simp add: kept_def)
  from pipe_end_kept[OF pipe_events_kept[OF this]] show ?thesis
    by (simp add: pipeTo_def)
qed

lemma sorted_concat_filter:
  "sorted_wrt (<) (map f (concat xss)) \<Longrightarrow> sorted_wrt (<) (map f (concat (filter P xss)))"
proof (induction xss)
  case Nil
  then show ?case by simp
next
  case (Cons xs xss)
  then show ?case by (auto simp: sorted_wrt_append)
qed

lemma sorted_upt_less: "sorted_wrt (<) [0..<n::nat]"
  by (simp add: sorted_wrt_upt)

text \<open>
  Claim C5, as stated, fails: a sink with the default batch size receives four messages;
  the timer fires after the second, and the insert of the batch it flushes throws, which
  the timer callback catches. The stream is closed in the ordinary way, the sink has
  received \<open>N = 4\<close> messages, and the recorded \<open>index\<close> values are 2 and 3, not
  \<open>0, ..., 3\<close>. The same happens in a run of \<open>start\<close>.
\<close>

theorem failed_timer_flush_leaves_gap:
  "wstate (fst (pipeTo first_batch_fails (createSink ''r1'' 50 1000)
      [Write sample_init 1, Write sample_assistant 2, Tick, Write sample_assistant 3,
       Write sample_result 4] EndOfStream empty_world)) = Closed \<and>
   index (sink (fst (pipeTo first_batch_fails (createSink ''r1'' 50 1000)
      [Write sample_init 1, Write sample_assistant 2, Tick, Write sample_assistant 3,
       Write sample_result 4] EndOfStream empty_world))) = 4 \<and>
   map rm_index (runMessageTable (snd (pipeTo first_batch_fails (createSink ''r1'' 50 1000)
      [Write sample_init 1, Write sample_assistant 2, Tick, Write sample_assistant 3,
       Write sample_result 4] EndOfStream empty_world))) = [2, 3] \<and>
   map rm_index (runMessageTable (snd (start first_batch_fails sample_start ''r1'' 0
      [Message sample_init 1, Message sample_assistant 2, TimerTick, Message sample_assistant 3,
       Message sample_result 4] EndOfStream 10 empty_world))) = [2, 3]"
  by (simp add: recorder_defs orchestrator_defs sample_defs sample_call_defs first_batch_fails_def)


text \<open>
  Claim C5, amended. A sink created for run \<open>rid\<close> with any batch size \<open>B\<close> is fed any
  sequence of chunks and timer firings and then closed or aborted, and \<open>n\<close> is the number
  of chunks that reached \<open>write\<close> (the final value of \<open>index\<close>). Whatever inserts throw:
  the rows of its insert calls, in call order, are the rows built from the first \<open>n\<close>
  chunks, with the \<open>index\<close> values \<open>0, 1, ..., n - 1\<close> in this order, every row in one call
  and none left in the buffer; the table has gained the rows of exactly those calls that
  did not throw, so the recorded \<open>index\<close> values are strictly increasing, without
  duplicates, with a gap for every batch whose insert threw. When no insert throws,
  every chunk reaches \<open>write\<close>, so \<open>n\<close> is the number \<open>N\<close> of chunks, and the recorded
  \<open>index\<close> values of the run are exactly \<open>0, ..., N - 1\<close>.
\<close>

theorem recorded_indices_contiguous:
  "(\<exists>calls.
      insertCalls (snd (pipeTo fails (createSink rid B ms) evs fin w)) = insertCalls w @ calls \<and>
      concat calls = records_from rid 0
        (take (index (sink (fst (pipeTo fails (createSink rid B ms) evs fin w)))) (writes_of evs)) \<and>
      map rm_index (concat calls) =
        [0..<index (sink (fst (pipeTo fails (createSink rid B ms) evs fin w)))] \<and>
      runMessageTable (snd (pipeTo fails (createSink rid B ms) evs fin w)) =
        runMessageTable w @ concat (filter (\<lambda>b. \<not> fails b) calls) \<and>
      sorted_wrt (<) (map rm_index (concat (filter (\<lambda>b. \<not> fails b) calls))))
   \<and> batch (sink (fst (pipeTo fails (createSink rid B ms) evs fin w))) = []
   \<and> ((\<forall>b. \<not> fails b) \<longrightarrow>
        index (sink (fst (pipeTo fails (createSink rid B ms) evs fin w))) = length (writes_of evs) \<and>
        runMessageTable (snd (pipeTo fails (createSink rid B ms) evs fin w)) =
          runMessageTable w @ records_from rid 0 (writes_of evs) \<and>
        map rm_index (records_from rid 0 (writes_of evs)) = [0..<length (writes_of evs)])"
proof -
  let ?rw = "pipeTo fails (createSink rid B ms) evs fin w"
  let ?n = "index (sink (fst ?rw))"
  have inv: "rec_inv rid (concat (insertCalls w)) (writes_of evs) ?rw"
    by (rule rec_inv_pipeTo)
  have nw: "wstate (fst ?rw) \<noteq> Writable"
    by (simp add: pipeTo_def pipe_end_not_writable)
  from inv nw have b: "batch (sink (fst ?rw)) = []" and le: "?n \<le> length (writes_of evs)"
    and c: "concat (insertCalls (snd ?rw)) =
            concat (insertCalls w) @ records_from rid 0 (take ?n (writes_of evs))"
    by (auto simp: rec_inv_def)
  have ix: "map rm_index (records_from rid 0 (take ?n (writes_of evs))) = [0..<?n]"
    using le by (simp add: records_from_index)
  from pipeTo_kept[of fails w "createSink rid B ms" evs fin]
  obtain calls where k: "insertCalls (snd ?rw) = insertCalls w @ calls"
    "runMessageTable (snd ?rw) = runMessageTable w @ concat (filter (\<lambda>b. \<not> fails b) calls)"
    by (auto simp: kept_def)
  from c k(1) have cc: "concat calls = records_from rid 0 (take ?n (writes_of evs))" by simp
  with ix have ci: "map rm_index (concat calls) = [0..<?n]" by simp
  then have "sorted_wrt (<) (map rm_index (concat calls))" by (simp add: sorted_upt_less)
  then have so: "sorted_wrt (<) (map rm_index (concat (filter (\<lambda>b. \<not> fails b) calls)))"
    by (rule sorted_concat_filter)
  have nofail: "index (sink (fst ?rw)) = length (writes_of evs) \<and>
        runMessageTable (snd ?rw) = runMessageTable w @ records_from rid 0 (writes_of evs) \<and>
        map rm_index (records_from rid 0 (writes_of evs)) = [0..<length (writes_of evs)]"
    if nf: "\<forall>b. \<not> fails b"
  proof -
    let ?rw0 = "(WritableStream (createSink rid B ms), w)"
    have r0: "rows_inv rid (runMessageTable w) [] ?rw0"
      by (simp add: rows_inv_def createSink_def WritableStream_def)
    have ro: "rows_inv rid (runMessageTable w) ([] @ writes_of evs) (pipe_events fails evs ?rw0)"
      by (rule rows_inv_events[OF nf rec_inv_init r0])
    have ri: "rec_inv rid (concat (insertCalls w)) ([] @ writes_of evs) (pipe_events fails evs ?rw0)"
      by (rule rec_inv_events[OF rec_inv_init])
    from ro ri have "index (sink (fst (pipe_events fails evs ?rw0))) = length (writes_of evs)"
      by (simp add: rows_inv_def rec_inv_def)
    then have "?n = length (writes_of evs)"
      by (simp add: pipeTo_def pipe_end_index)
    with pipeTo_rows[OF nf] show ?thesis
      by (simp add: records_from_index)
  qed
  from b k cc ci so nofail show ?thesis by blast
qed


theorem recorded_indices_contiguous_witness:
  "(\<forall>b. \<not> no_failure b) \<and>
   map rm_index (runMessageTable (snd (pipeTo no_failure (createSink ''r1'' 2 1000)
     [Write sample_init 1, Tick, Write sample_assistant 2, Write sample_result 3]
     EndOfStream empty_world))) = [0, 1, 2]"
  using recorded_indices_contiguous[of no_failure "''r1''" 2 1000
     "[Write sample_init 1, Tick, Write sample_assistant 2, Write sample_result 3]"
     EndOfStream empty_world]
  by (simp add: empty_world_def no_failure_def)

text \<open>
  Claim C8. A sink with batch size \<open>B \<ge> 1\<close> is fed any sequence of chunks and timer
  firings, all \<open>N\<close> chunks being accepted (the stream is still writable). Then at least
  \<open>N div B\<close> insert calls have been made before the stream ends, and the buffer holds
  \<open>r\<close> rows with \<open>r < B\<close>. The final flush, at close or at abort, hands exactly these rows
  over in one insert call (none if the buffer is empty) and leaves the buffer empty; if
  that insert does not throw, the table gains exactly these rows.
\<close>

theorem batched_flush_bound:
  assumes "1 \<le> B"
    and "wstate (fst (pipe_events fails evs (WritableStream (createSink rid B ms), w))) = Writable"
  shows "(let rw1 = pipe_events fails evs (WritableStream (createSink rid B ms), w);
              r = batch (sink (fst rw1));
              rw2 = pipe_end fails fin rw1
          in length (writes_of evs) div nat B \<le> length (insertCalls (snd rw1)) - length (insertCalls w)
             \<and> int (length r) < B
             \<and> insertCalls (snd rw2) = insertCalls (snd rw1) @ (if r = [] then [] else [r])
             \<and> batch (sink (fst rw2)) = []
             \<and> (\<not> fails r \<longrightarrow> runMessageTable (snd rw2) = runMessageTable (snd rw1) @ r))"
proof -
  let ?rw0 = "(WritableStream (createSink rid B ms), w)"
  let ?rw1 = "pipe_events fails evs ?rw0"
  let ?r = "batch (sink (fst ?rw1))"
  have c0: "count_inv B (length (insertCalls w)) ?rw0"
    using assms(1) by (simp add: count_inv_def WritableStream_def createSink_def)
  have ci: "count_inv B (length (insertCalls w)) ?rw1"
    by (rule count_inv_events[OF assms(1) c0])
  have "rec_inv rid (concat (insertCalls w)) ([] @ writes_of evs) ?rw1"
    by (rule rec_inv_events[OF rec_inv_init])
  with assms(2) have n: "index (sink (fst ?rw1)) = length (writes_of evs)"
    by (simp add: rec_inv_def)
  have a: "length (writes_of evs) div nat B \<le> length (insertCalls (snd ?rw1)) - length (insertCalls w)"
    using count_inv_bound[OF assms(1) ci] n by simp
  have b: "int (length ?r) < B"
    using ci by (simp add: count_inv_def)
  obtain oc s' w' where f: "flush fails (sink (fst ?rw1), snd ?rw1) = (oc, s', w')"
    by (cases "flush fails (sink (fst ?rw1), snd ?rw1)") auto
  have e: "fst (pipe_end fails fin ?rw1) = (fst ?rw1)\<lparr>sink := s', wstate := wstate (fst (pipe_end fails fin ?rw1))\<rparr>"
       "insertCalls (snd (pipe_end fails fin ?rw1)) = insertCalls w'"
       "runMessageTable (snd (pipe_end fails fin ?rw1)) = runMessageTable w'"
    using assms(2) f
    by (cases fin; cases oc;
        simp add: pipe_end_def pipe_close_def pipe_abort_def sink_close_def sink_abort_def
          recording_error_def)+
  have c: "insertCalls (snd (pipe_end fails fin ?rw1)) = insertCalls (snd ?rw1) @ (if ?r = [] then [] else [?r])"
    using flush_count(1)[OF f] e(2) by simp
  have d: "batch (sink (fst (pipe_end fails fin ?rw1))) = []"
    using flush_handed(5)[OF f] e(1) by (metis Recorder.select_convs(1) Recorder.surjective Recorder.update_convs(1) Recorder.update_convs(2))
  have g: "\<not> fails ?r \<longrightarrow> runMessageTable (snd (pipe_end fails fin ?rw1)) = runMessageTable (snd ?rw1) @ ?r"
    using flush_count(2)[OF f] e(3) by simp
  from a b c d g show ?thesis by (simp add: Let_def)
qed


theorem batched_flush_bound_witness:
  "(1::int) \<le> 2 \<and>
   wstate (fst (pipe_events no_failure
      [Write sample_init 1, Write sample_assistant 2, Tick, Write sample_result 3]
      (WritableStream (createSink ''r1'' 2 1000), empty_world))) = Writable \<and>
   (let rw1 = pipe_events no_failure
      [Write sample_init 1, Write sample_assistant 2, Tick, Write sample_result 3]
      (WritableStream (createSink ''r1'' 2 1000), empty_world);
        rw2 = pipe_end no_failure EndOfStream rw1
    in (1::nat) \<le> length (insertCalls (snd rw1)) \<and>
       length (batch (sink (fst rw1))) = 1 \<and>
       runMessageTable (snd rw2) = runMessageTable (snd rw1) @ batch (sink (fst rw1)))"
proof -
  have h: "wstate (fst (pipe_events no_failure
      [Write sample_init 1, Write sample_assistant 2, Tick, Write sample_result 3]
      (WritableStream (createSink ''r1'' 2 1000), empty_world))) = Writable"
    by (simp add: recorder_defs no_failure_def)
  have n: "length (batch (sink (fst (pipe_events no_failure
      [Write sample_init 1, Write sample_assistant 2, Tick, Write sample_result 3]
      (WritableStream (createSink ''r1'' 2 1000), empty_world))))) = 1"
    by (simp add: recorder_defs no_failure_def)
  have d: "(3::nat) div nat 2 = 1" by simp
  from batched_flush_bound[of 2 no_failure
      "[Write sample_init 1, Write sample_assistant 2, Tick, Write sample_result 3]"
      "''r1''" 1000 empty_world EndOfStream, OF _ h] h n d
  show ?thesis by (simp add: Let_def empty_world_def no_failure_def)
qed

text \<open>
  A flush that fails in the timer callback is caught there: the stream stays writable and
  the later messages are recorded.
\<close>

lemma failed_timer_flush_keeps_recording:
  "(let rw = pipeTo first_batch_fails (createSink ''r1'' 50 1000)
               [Write sample_init 1, Write sample_assistant 2, Tick, Write sample_assistant 3,
                Write sample_result 4] EndOfStream empty_world
    in wstate (fst rw) = Closed \<and> map rm_index (runMessageTable (snd rw)) = [2, 3] \<and>
       console (snd rw) = [''[StreamRecorder] Flush error:''])"
  by (simp add: recorder_defs first_batch_fails_def)

text \<open>
  Claim C7. The sink has batch size 2 and the insert of the first full batch (the rows
  with \<open>index\<close> 0 and 1) throws; every other insert would succeed. The exception leaves
  \<open>write\<close>, the stream is errored and the pipe rejects, which \<open>processStream\<close> logs. The two
  later messages never reach \<open>write\<close>: \<open>index\<close> stays at 2, no further insert call is made,
  and the table holds no row of the run when the stream has ended.
\<close>

theorem failed_write_flush_stops_recording:
  "(let rw = pipeTo first_batch_fails (createSink ''r1'' 2 1000)
               [Write sample_init 1, Write sample_assistant 2, Write sample_assistant 3,
                Write sample_result 4] EndOfStream empty_world
    in wstate (fst rw) = Errored \<and> index (sink (fst rw)) = 2 \<and>
       length (insertCalls (snd rw)) = 1 \<and> runMessageTable (snd rw) = [] \<and>
       console (snd rw) = [''Recording error''])"
  by (simp add: recorder_defs first_batch_fails_def)


section \<open>The turn gate: proofs\<close>

lemma pull_received: "receivedResult (pull r s) \<Longrightarrow> receivedResult s \<or> pulls_result (Pull r)"
proof (cases r)
  case (NextThrows e)
  then show "receivedResult (pull r s) \<Longrightarrow> receivedResult s \<or> pulls_result (Pull r)"
    by (simp add: pull_def split: if_splits)
next
  case (NextResult v d)
  then show "receivedResult (pull r s) \<Longrightarrow> receivedResult s \<or> pulls_result (Pull r)"
    by (cases v; cases d) (simp_all add: pull_def done_call_def split: if_splits)
qed

lemma done_call_keeps: "receivedResult (done_call s)"
  by (simp add: done_call_def)

lemma pull_keeps: "receivedResult s \<Longrightarrow> receivedResult (pull r s)"
proof (cases r)
  case (NextThrows e)
  then show "receivedResult s \<Longrightarrow> receivedResult (pull r s)"
    by (simp add: pull_def)
next
  case (NextResult v d)
  then show "receivedResult s \<Longrightarrow> receivedResult (pull r s)"
    by (cases v; cases d) (simp_all add: pull_def done_call_def)
qed

lemma pull_ended:
  "input (pull r s) = InputEnded \<Longrightarrow> input s = InputEnded \<or> receivedResult (pull r s)"
proof (cases r)
  case (NextThrows e)
  then show "input (pull r s) = InputEnded \<Longrightarrow> input s = InputEnded \<or> receivedResult (pull r s)"
    by (simp add: pull_def split: if_splits)
next
  case (NextResult v d)
  then show "input (pull r s) = InputEnded \<Longrightarrow> input s = InputEnded \<or> receivedResult (pull r s)"
    by (cases v; cases d) (simp_all add: pull_def done_call_def split: if_splits)
qed

lemma input_next_received: "receivedResult (input_next s) = receivedResult s"
  by (cases "input s") (simp_all add: input_next_def)

lemma input_next_ended:
  "input (input_next s) = InputEnded \<Longrightarrow> input s = InputEnded \<or> receivedResult s"
  by (cases "input s") (simp_all add: input_next_def split: if_splits)


lemma pull_received_readable:
  "receivedResult (pull r s) \<Longrightarrow> receivedResult s \<or> (pulls_result (Pull r) \<and> readable s = Readable)"
proof (cases "readable s = Readable")
  case False
  then show "receivedResult (pull r s) \<Longrightarrow> ?thesis" by (simp add: pull_def)
next
  case True
  with pull_received[of r s] show "receivedResult (pull r s) \<Longrightarrow> ?thesis" by simp
qed

lemma executor_step_received_readable:
  "receivedResult (executor_step e s) \<Longrightarrow>
   receivedResult s \<or> (pulls_result e \<and> readable s = Readable)"
  by (cases e) (simp_all add: input_next_received pull_received_readable)

lemma executor_step_keeps: "receivedResult s \<Longrightarrow> receivedResult (executor_step e s)"
  by (cases e) (simp_all add: input_next_received pull_keeps)

lemma executor_step_inv:
  assumes "input s = InputEnded \<longrightarrow> receivedResult s"
  shows "input (executor_step e s) = InputEnded \<longrightarrow> receivedResult (executor_step e s)"
proof
  assume en: "input (executor_step e s) = InputEnded"
  show "receivedResult (executor_step e s)"
  proof (cases e)
    case InputNext
    with en input_next_ended[of s] assms show ?thesis
      by (auto simp: input_next_received)
  next
    case (Pull r)
    with en pull_ended[of r s] assms pull_keeps[of s r] show ?thesis
      by auto
  qed
qed

lemma executor_events_received_at:
  "receivedResult (executor_events evs s) \<Longrightarrow>
   receivedResult s \<or>
   (\<exists>k<length evs. pulls_result (evs ! k) \<and> readable (executor_events (take k evs) s) = Readable)"
proof (induction evs arbitrary: s)
  case Nil
  then show ?case by simp
next
  case (Cons e evs)
  from Cons.prems have "receivedResult (executor_events evs (executor_step e s))" by simp
  from Cons.IH[OF this] show ?case
  proof
    assume "receivedResult (executor_step e s)"
    from executor_step_received_readable[OF this] show ?thesis
    proof
      assume "receivedResult s" then show ?thesis ..
    next
      assume "pulls_result e \<and> readable s = Readable"
      then have "0 < length (e # evs) \<and> pulls_result ((e # evs) ! 0) \<and>
                 readable (executor_events (take 0 (e # evs)) s) = Readable" by simp
      then show ?thesis by blast
    qed
  next
    assume "\<exists>k<length evs. pulls_result (evs ! k) \<and>
              readable (executor_events (take k evs) (executor_step e s)) = Readable"
    then obtain k where k: "k < length evs" "pulls_result (evs ! k)"
      "readable (executor_events (take k evs) (executor_step e s)) = Readable" by blast
    then have "Suc k < length (e # evs) \<and> pulls_result ((e # evs) ! Suc k) \<and>
               readable (executor_events (take (Suc k) (e # evs)) s) = Readable" by simp
    then show ?thesis by blast
  qed
qed

lemma executor_events_inv:
  "(input s = InputEnded \<longrightarrow> receivedResult s) \<Longrightarrow>
   (input (executor_events evs s) = InputEnded \<longrightarrow> receivedResult (executor_events evs s))"
proof (induction evs arbitrary: s)
  case Nil
  then show ?case by simp
next
  case (Cons e evs)
  from Cons.IH[OF executor_step_inv[OF Cons.prems]] show ?case by simp
qed


text \<open>
  Claim C6. Whatever the provider and the consumer do, in whatever order (the provider
  asking the input generator for its next element, the consumer's pulls getting values,
  the end of the provider's output or an exception), at every moment \<open>n\<close> at which the
  input generator has returned, and so signalled the end of the provider's input, an
  earlier step \<open>k < n\<close> was a pull, made while the stream was readable, that got a message
  of type \<open>result\<close> from the provider's output.
\<close>

theorem input_open_until_result:
  "\<forall>n. input (executor_events (take n evs) (execute p)) = InputEnded \<longrightarrow>
        (\<exists>k<n. k < length evs \<and> pulls_result (evs ! k) \<and>
                readable (executor_events (take k evs) (execute p)) = Readable)"
proof (intro allI impI)
  fix n
  assume e: "input (executor_events (take n evs) (execute p)) = InputEnded"
  have "input (execute p) = InputEnded \<longrightarrow> receivedResult (execute p)"
    by (simp add: execute_def)
  from executor_events_inv[OF this, of "take n evs"] e
  have "receivedResult (executor_events (take n evs) (execute p))" by simp
  from executor_events_received_at[OF this]
  obtain k where k: "k < length (take n evs)" "pulls_result (take n evs ! k)"
     "readable (executor_events (take k (take n evs)) (execute p)) = Readable"
    by (auto simp: execute_def)
  then have "k < n" "k < length evs" by simp_all
  moreover from k(2) \<open>k < n\<close> have "pulls_result (evs ! k)" by simp
  moreover from k(3) \<open>k < n\<close> have "readable (executor_events (take k evs) (execute p)) = Readable"
    by (simp add: min_absorb1)
  ultimately show "\<exists>k<n. k < length evs \<and> pulls_result (evs ! k) \<and>
                readable (executor_events (take k evs) (execute p)) = Readable" by blast
qed

theorem input_open_until_result_witness:
  "input (executor_events (take 4
      [InputNext, Pull (NextResult (Some sample_init) False), InputNext,
       Pull (NextResult (Some sample_result) False), Pull (NextResult None True)])
      (execute (executeFresh sample_start))) = InputEnded \<and>
   input (executor_events (take 3
      [InputNext, Pull (NextResult (Some sample_init) False), InputNext,
       Pull (NextResult (Some sample_result) False), Pull (NextResult None True)])
      (execute (executeFresh sample_start))) = AwaitingResult \<and>
   (\<exists>k<4. pulls_result ([InputNext, Pull (NextResult (Some sample_init) False), InputNext,
       Pull (NextResult (Some sample_result) False), Pull (NextResult None True)] ! k))"
proof -
  have h: "input (executor_events (take 4
      [InputNext, Pull (NextResult (Some sample_init) False), InputNext,
       Pull (NextResult (Some sample_result) False), Pull (NextResult None True)])
      (execute (executeFresh sample_start))) = InputEnded"
    by (simp add: executor_defs sample_defs)
  have g: "input (executor_events (take 3
      [InputNext, Pull (NextResult (Some sample_init) False), InputNext,
       Pull (NextResult (Some sample_result) False), Pull (NextResult None True)])
      (execute (executeFresh sample_start))) = AwaitingResult"
    by (simp add: executor_defs sample_defs)
  from input_open_until_result[of
      "[InputNext, Pull (NextResult (Some sample_init) False), InputNext,
        Pull (NextResult (Some sample_result) False), Pull (NextResult None True)]"
      "executeFresh sample_start"] h g
  show ?thesis by blast
qed

section \<open>The run orchestrator: proofs\<close>









lemma find_update:
  assumes "\<And>r. r_id (f r) = r_id r"
  shows "find (\<lambda>r. r_id r = rid) (map (\<lambda>r. if r_id r = rid then f r else r) xs) =
         map_option f (find (\<lambda>r. r_id r = rid) xs)"
  using assms by (induction xs) auto


lemma getRun_run_updated:
  assumes "\<And>r. r_id (f r) = r_id r"
  shows "getRun rid (run_updated rid f w) = map_option f (getRun rid w)"
  using find_update[of f rid "runTable w"] assms by (simp add: getRun_def run_updated_def)

























text \<open>
  When no statement on the run table throws and the run id is not in the table yet, the
  calls are the ones all of whose statements succeed.
\<close>

lemma admit_db_agrees:
  assumes "\<forall>c. \<not> throws c" and "rid \<notin> r_id ` set (runTable w)"
  shows "admit_db throws rid cwd prompt mode parent ep t0 w =
         Inr (admit rid cwd prompt mode parent ep t0 w)"
  using assms by (simp add: admit_db_def admit_def insert_run_def activeRuns_set_def Let_def)

lemma process_message_db_agrees:
  assumes "\<forall>c. \<not> throws c"
  shows "process_message_db throws m tw = Inr (process_message m tw)"
  using assms by (simp add: process_message_db_def process_message_def update_run_def Let_def)

lemma cancel_db_agrees:
  assumes "\<forall>c. \<not> throws c"
  shows "cancel_db throws rid w = cancel rid w"
  using assms by (simp add: cancel_db_def cancel_def update_run_def Let_def split: option.splits)

lemma catch_block_agrees:
  assumes "\<forall>c. \<not> throws c"
  shows "catch_block throws e now tw = (Inr (fst (complete_error e now tw)), snd (complete_error e now tw))"
  using assms by (simp add: catch_block_def complete_error_def update_run_def Let_def)

lemma after_loop_agrees:
  assumes "\<forall>c. \<not> throws c"
  shows "after_loop throws now tw = (Inr (fst (complete_ok now tw)), snd (complete_ok now tw))"
  using assms by (simp add: after_loop_def complete_ok_def update_run_def Let_def)

lemma run_step_db_agrees:
  assumes "\<forall>c. \<not> throws c"
  shows "run_step_db throws fails e (t, None, w) =
         (fst (run_step fails e (t, w)), None, snd (run_step fails e (t, w)))"
proof (cases e)
  case (Message m now)
  obtain r' w1 where p: "pipe_write fails m now (recorder t, w) = (r', w1)"
    by (cases "pipe_write fails m now (recorder t, w)") auto
  obtain t2 w2 where q: "process_message m (t\<lparr>recorder := r'\<rparr>, w1) = (t2, w2)"
    by (cases "process_message m (t\<lparr>recorder := r'\<rparr>, w1)") auto
  with Message p process_message_db_agrees[OF assms, of m "(t\<lparr>recorder := r'\<rparr>, w1)"]
  show ?thesis by simp
next
  case TimerTick
  obtain r' w1 where p: "pipe_tick fails (recorder t, w) = (r', w1)"
    by (cases "pipe_tick fails (recorder t, w)") auto
  with TimerTick show ?thesis by simp
next
  case CancelRequest
  with cancel_db_agrees[OF assms] show ?thesis by simp
qed

lemma run_events_db_agrees:
  assumes "\<forall>c. \<not> throws c"
  shows "run_events_db throws fails evs (t, None, w) =
         (fst (run_events fails evs (t, w)), None, snd (run_events fails evs (t, w)))"
proof (induction evs arbitrary: t w)
  case Nil
  show ?case by simp
next
  case (Cons e evs)
  show ?case
    using Cons.IH[of "fst (run_step fails e (t, w))" "snd (run_step fails e (t, w))"]
    by (simp add: run_step_db_agrees[OF assms])
qed

lemma finish_db_agrees:
  assumes "\<forall>c. \<not> throws c"
  shows "finish_db throws fails fin now (t, None, w) =
         (Inr (fst (finish fails fin now (t, w))), snd (finish fails fin now (t, w)))"
proof -
  obtain r' w1 where p: "pipe_end fails fin (recorder t, w) = (r', w1)"
    by (cases "pipe_end fails fin (recorder t, w)") auto
  then show ?thesis
    by (cases fin) (simp_all add: finish_def catch_block_agrees[OF assms] after_loop_agrees[OF assms])
qed

lemma admitted_agrees:
  assumes "\<forall>c. \<not> throws c"
  shows "finish_db throws fails fin t1 (run_events_db throws fails evs (fst tw, None, snd tw)) =
         (Inr (fst (finish fails fin t1 (run_events fails evs tw))),
          snd (finish fails fin t1 (run_events fails evs tw)))"
  using finish_db_agrees[OF assms, of fails fin t1 "fst (run_events fails evs tw)"
      "snd (run_events fails evs tw)"]
    run_events_db_agrees[OF assms, of fails evs "fst tw" "snd tw"]
  by simp

lemma start_db_agrees:
  assumes "\<forall>c. \<not> throws c" and "rid \<notin> r_id ` set (runTable w)"
  shows "start_db throws fails p rid t0 evs fin t1 w = start fails p rid t0 evs fin t1 w"
proof -
  let ?tw = "admit rid (sp_cwd p) (sp_prompt p) Fresh None (executeFresh p) t0 w"
  have "admit_db throws rid (sp_cwd p) (sp_prompt p) Fresh None (executeFresh p) t0 w =
        Inr (fst ?tw, snd ?tw)"
    using admit_db_agrees[OF assms] by simp
  with admitted_agrees[OF assms(1), of fails fin t1 evs ?tw] show ?thesis
    by (simp add: start_db_def start_def split_beta)
qed

lemma executeRun_db_agrees:
  assumes "\<forall>c. \<not> throws c" and "rid \<notin> r_id ` set (runTable w)"
  shows "executeRun_db throws fails q cwd mode parent rid t0 evs fin t1 w =
         (Inr (fst (executeRun fails q cwd mode parent rid t0 evs fin t1 w)),
          snd (executeRun fails q cwd mode parent rid t0 evs fin t1 w))"
proof -
  let ?ep = "if mode = Resume then executeResume q cwd else executeFork q cwd"
  let ?tw = "admit rid cwd (rp_prompt q) mode (Some parent) ?ep t0 w"
  have "admit_db throws rid cwd (rp_prompt q) mode (Some parent) ?ep t0 w = Inr (fst ?tw, snd ?tw)"
    using admit_db_agrees[OF assms] by simp
  with admitted_agrees[OF assms(1), of fails fin t1 evs ?tw] show ?thesis
    by (simp add: executeRun_db_def executeRun_def split_beta)
qed

lemma resume_db_agrees:
  assumes "\<forall>c. \<not> throws c" and "rid \<notin> r_id ` set (runTable w)"
  shows "resume_db throws fails q rid t0 evs fin t1 w = resume fails q rid t0 evs fin t1 w"
proof -
  have e: "\<not> throws (SelectBySessionId (rp_sessionId q))"
    using assms(1) by simp
  show ?thesis
    using e by (simp add: resume_db_def resume_def select_runs_def executeRun_db_agrees[OF assms] split_beta
        split: option.splits)
qed

lemma fork_db_agrees:
  assumes "\<forall>c. \<not> throws c" and "rid \<notin> r_id ` set (runTable w)"
  shows "fork_db throws fails q rid t0 evs fin t1 w = fork fails q rid t0 evs fin t1 w"
proof -
  have e: "\<not> throws (SelectBySessionId (rp_sessionId q))"
    using assms(1) by simp
  show ?thesis
    using e by (simp add: fork_db_def fork_def select_runs_def executeRun_db_agrees[OF assms] split_beta
        split: option.splits)
qed


lemma cancel_unknown:
  "getActiveRun rid w = None \<Longrightarrow> cancel rid w = (Inl (RunAlreadyCompletedError rid), w)"
  by (simp add: cancel_def)

lemma cancel_running:
  assumes "getActiveRun rid w = Some a"
  shows "fst (cancel rid w) = Inr ()"
    and "getActiveRun rid (snd (cancel rid w)) = None"
    and "objects (snd (cancel rid w)) rid = Some (a\<lparr>a_aborted := True, a_status := Cancelled\<rparr>)"
    and "getRun rid (snd (cancel rid w)) = map_option (\<lambda>r. r\<lparr>r_status := Cancelled\<rparr>) (getRun rid w)"
proof -
  from assms have o: "objects w rid = Some a"
    by (simp add: getActiveRun_def split: if_splits)
  let ?w1 = "modify_object rid (\<lambda>a. a\<lparr>a_aborted := True, a_status := Cancelled\<rparr>) w"
  have g: "getRun rid (run_updated rid (\<lambda>r. r\<lparr>r_status := Cancelled\<rparr>) ?w1) =
           map_option (\<lambda>r. r\<lparr>r_status := Cancelled\<rparr>) (getRun rid ?w1)"
    by (simp add: getRun_run_updated)
  from assms show "fst (cancel rid w) = Inr ()"
    by (simp add: cancel_def Let_def)
  from assms show "getActiveRun rid (snd (cancel rid w)) = None"
    by (simp add: cancel_def Let_def getActiveRun_def activeRuns_delete_def)
  from assms o show "objects (snd (cancel rid w)) rid = Some (a\<lparr>a_aborted := True, a_status := Cancelled\<rparr>)"
    by (simp add: cancel_def Let_def activeRuns_delete_def run_updated_def modify_object_def)
  from assms g show "getRun rid (snd (cancel rid w)) = map_option (\<lambda>r. r\<lparr>r_status := Cancelled\<rparr>) (getRun rid w)"
    by (simp add: cancel_def Let_def getRun_def activeRuns_delete_def modify_object_def)
qed



text \<open>
  Claim C1. \<open>sample_start\<close> carries a \<open>webhookUrl\<close>. No notification has been handed to
  \<open>dispatchWebhook\<close> when the run has been admitted, none when it has completed, and none
  when its stream has thrown instead: \<open>start\<close> never calls \<open>dispatchWebhook\<close>, and the
  \<open>ActiveRun\<close> object it creates holds no notification target.
\<close>

theorem no_notification_dispatched:
  "sp_webhookUrl sample_start = Some ''http://client/hook'' \<and>
   dispatched (snd sample_admitted) = [] \<and>
   map_option a_webhookUrl (objects (snd sample_admitted) ''r1'') = Some None \<and>
   dispatched (snd (start no_failure sample_start ''r1'' 0
      [Message sample_init 1, Message sample_assistant 2, Message sample_result 3]
      EndOfStream 10 empty_world)) = [] \<and>
   dispatched (snd (start no_failure sample_start ''r1'' 0
      [Message sample_init 1] (StreamError ''boom'') 10 empty_world)) = []"
  by (simp add: orchestrator_defs recorder_defs sample_defs sample_call_defs)




text \<open>
  Claim C3. A run is admitted, its \<open>init\<close> message arrives, and a caller cancels it: the
  row has status \<open>cancelled\<close> and the run has left the map of active runs. The provider,
  aborted, then makes the stream throw: the \<open>catch\<close> block of \<open>start\<close> writes status
  \<open>error\<close> over \<open>cancelled\<close>, and \<open>start\<close> returns a result with status \<open>error\<close>. If the
  stream ends without an exception instead, the row ends with status \<open>completed\<close>.
\<close>

theorem cancelled_status_overwritten:
  "map_option r_status (getRun ''r1'' (snd (run_events no_failure
      [Message sample_init 1, CancelRequest] sample_admitted))) = Some Cancelled \<and>
   activeRuns (snd (run_events no_failure [Message sample_init 1, CancelRequest] sample_admitted)) = [] \<and>
   map_option r_status (getRun ''r1'' (snd (start no_failure sample_start ''r1'' 0
      [Message sample_init 1, CancelRequest] (StreamError ''aborted'') 10 empty_world))) = Some Error \<and>
   map_option r_status (getRun ''r1'' (snd (start no_failure sample_start ''r1'' 0
      [Message sample_init 1, CancelRequest] EndOfStream 10 empty_world))) = Some Completed"
  by (simp add: orchestrator_defs recorder_defs sample_defs sample_call_defs)












end
